theory Spec2Isabelle
  imports
    Main
    "HOL-Library.Multiset"
    "HOL-Library.Char_ord"
    "HOL-Library.List_Lexorder"
    "HOL-Library.Product_Lexorder"
begin

section \<open>Python values and exceptions used by tool.py\<close>

text \<open>
  A \<open>str\<close> is the list of its code points, compared by code point as Python compares
  strings; the type \<^typ>\<open>char\<close> holds the code points below 256 (ASCII and Latin-1).
  \<open>str.lower\<close>, \<open>str.strip\<close> and the regular expression class \<open>\s\<close> are as Python has
  them on all of these code points.
\<close>

text \<open>The value \<open>json.load\<close> returns. A float is kept as its literal: no function of
  tool.py computes with it. A \<open>dict\<close> is an association list read with \<open>map_of\<close>.\<close>

datatype json =
    JNull
  | JBool bool
  | JInt int
  | JFloat string
  | JStr string
  | JList "json list"
  | JDict "(string \<times> json) list"

text \<open>The exceptions that tool.py can meet, each with what \<open>str(e)\<close> is built from.
  All but the last are subclasses of \<open>Exception\<close>. \<open>KeyboardInterrupt\<close> derives from
  \<open>BaseException\<close> only: it stands for what \<open>except Exception\<close> lets through. It comes
  from a signal; no statement of tool.py raises it.\<close>

datatype exn =
    JSONDecodeError string
  | UnicodeDecodeError string
  | OSError string
  | RecursionError string
  | AttributeError string string
  | TypeError string
  | KeyboardInterrupt

text \<open>\<open>isinstance(e, Exception)\<close>.\<close>

fun is_Exception :: "exn \<Rightarrow> bool" where
  "is_Exception KeyboardInterrupt = False"
| "is_Exception _ = True"

fun type_name :: "json \<Rightarrow> string" where
  "type_name JNull = ''NoneType''"
| "type_name (JBool _) = ''bool''"
| "type_name (JInt _) = ''int''"
| "type_name (JFloat _) = ''float''"
| "type_name (JStr _) = ''str''"
| "type_name (JList _) = ''list''"
| "type_name (JDict _) = ''dict''"

text \<open>\<open>str(e)\<close>, with the wording of CPython 3.8 to 3.13.\<close>

fun str_exn :: "exn \<Rightarrow> string" where
  "str_exn (JSONDecodeError m) = m"
| "str_exn (UnicodeDecodeError m) = m"
| "str_exn (OSError m) = m"
| "str_exn (AttributeError t a) =
     [CHR 0x27] @ t @ [CHR 0x27] @ '' object has no attribute '' @ [CHR 0x27] @ a @ [CHR 0x27]"
| "str_exn (TypeError m) = m"
| "str_exn (RecursionError m) = m"
| "str_exn KeyboardInterrupt = []"

definition bind_exn :: "exn + 'a \<Rightarrow> ('a \<Rightarrow> exn + 'b) \<Rightarrow> exn + 'b" where
  "bind_exn m f = (case m of Inl e \<Rightarrow> Inl e | Inr x \<Rightarrow> f x)"

text \<open>\<open>v.get(k, d)\<close>: a method of \<open>dict\<close> only; any other value has no attribute \<open>get\<close>.\<close>

fun py_get :: "json \<Rightarrow> string \<Rightarrow> json \<Rightarrow> exn + json" where
  "py_get (JDict kvs) k d = Inr (case map_of kvs k of None \<Rightarrow> d | Some v \<Rightarrow> v)"
| "py_get v k d = Inl (AttributeError (type_name v) ''get'')"

text \<open>\<open>str.lower\<close> on one code point below 256: the letters \<open>A\<close> to \<open>Z\<close> and the
  Latin-1 capitals \<open>U+00C0\<close> to \<open>U+00DE\<close>, the multiplication sign \<open>U+00D7\<close> apart, go to
  the code point 32 above, which is to set bit 5; every other code point stays.\<close>

definition lower_char :: "char \<Rightarrow> char" where
  "lower_char c =
     (if (CHR ''A'' \<le> c \<and> c \<le> CHR ''Z'') \<or> (CHR 0xC0 \<le> c \<and> c \<le> CHR 0xDE \<and> c \<noteq> CHR 0xD7)
      then (case c of Char b0 b1 b2 b3 b4 b5 b6 b7 \<Rightarrow> Char b0 b1 b2 b3 b4 True b6 b7)
      else c)"

definition lower :: "string \<Rightarrow> string" where
  "lower s = map lower_char s"

text \<open>\<open>v.lower()\<close>: a method of \<open>str\<close> only.\<close>

fun py_lower :: "json \<Rightarrow> exn + string" where
  "py_lower (JStr s) = Inr (lower s)"
| "py_lower v = Inl (AttributeError (type_name v) ''lower'')"

text \<open>\<open>r in s\<close> for two strings: \<open>r\<close> occurs in \<open>s\<close> as a contiguous substring.\<close>

fun startswith :: "string \<Rightarrow> string \<Rightarrow> bool" where
  "startswith s [] = True"
| "startswith [] (b # bs) = False"
| "startswith (a # as) (b # bs) = (a = b \<and> startswith as bs)"

fun str_contains :: "string \<Rightarrow> string \<Rightarrow> bool" where
  "str_contains [] r = (r = [])"
| "str_contains (c # cs) r = (startswith (c # cs) r \<or> str_contains cs r)"

text \<open>\<open>resource in server_resources\<close>, where \<open>resource\<close> is a \<open>str\<close>: membership by
  \<open>==\<close> in a list (a \<open>str\<close> equals only an equal \<open>str\<close>), substring test in a \<open>str\<close>,
  key membership in a \<open>dict\<close>, and \<open>TypeError\<close> on a value that is no container.\<close>

fun py_in :: "string \<Rightarrow> json \<Rightarrow> exn + bool" where
  "py_in r (JList xs) = Inr (JStr r \<in> set xs)"
| "py_in r (JStr s) = Inr (str_contains s r)"
| "py_in r (JDict kvs) = Inr (r \<in> set (map fst kvs))"
| "py_in r v =
     Inl (TypeError (''argument of type '' @ [CHR 0x27] @ type_name v @ [CHR 0x27] @ '' is not iterable''))"

section \<open>The record evaluator: \<open>process_json_file\<close>\<close>

text \<open>What \<open>open(json_file)\<close> followed by \<open>json.load\<close> does on a path: \<open>open\<close> fails,
  the bytes are not UTF-8, the text is not JSON, the text nests beyond the recursion
  limit, or a value is loaded.\<close>

datatype file_data =
    OpenFails string
  | DecodeFails string
  | ParseFails string
  | NestsTooDeep string
  | Loads json

text \<open>A \<open>Path\<close> of the servers folder: its \<open>.name\<close> and what reading it gives.\<close>

record json_file =
  name :: string
  data :: file_data

text \<open>One element of \<open>unauthorized_servers\<close>: the dict appended at lines 63 to 70.\<close>

record violation =
  server_code :: json
  owner_name :: json
  owner_profile :: json
  resource :: string
  required_package :: string
  file_name :: string

text \<open>\<open>requirements\<close> is a dict iterated in insertion order: an association list.
  \<open>user_packages\<close> is a dict read with \<open>.get\<close> only: a map.\<close>

type_synonym requirements = "(string \<times> string) list"
type_synonym user_packages = "string \<rightharpoonup> string set"

text \<open>\<open>user_packages.get(owner_key, set())\<close>.\<close>

definition owned_by :: "user_packages \<Rightarrow> string \<Rightarrow> string set" where
  "owned_by user_packages owner_key =
     (case user_packages owner_key of None \<Rightarrow> {} | Some s \<Rightarrow> s)"

text \<open>The loop of lines 59 to 70 over \<open>requirements.items()\<close>; the last argument \<open>acc\<close>
  is \<open>unauthorized_servers\<close> so far.\<close>

fun check_requirements ::
  "string \<Rightarrow> json \<Rightarrow> json \<Rightarrow> json \<Rightarrow> json \<Rightarrow> string \<Rightarrow> user_packages
    \<Rightarrow> requirements \<Rightarrow> violation list \<Rightarrow> exn + violation list" where
  "check_requirements fname scode oname oprofile server_resources owner_key user_packages
      [] acc = Inr acc"
| "check_requirements fname scode oname oprofile server_resources owner_key user_packages
      ((resource', required_package') # rest) acc =
     bind_exn (py_in resource' server_resources) (\<lambda>used.
       if used then
         (let owner_owned = owned_by user_packages owner_key in
          if required_package' \<notin> owner_owned then
            check_requirements fname scode oname oprofile server_resources owner_key
              user_packages rest
              (acc @
                [\<lparr>server_code = scode, owner_name = oname, owner_profile = oprofile,
                  resource = resource', required_package = required_package',
                  file_name = fname\<rparr>])
          else
            check_requirements fname scode oname oprofile server_resources owner_key
              user_packages rest acc)
       else
         check_requirements fname scode oname oprofile server_resources owner_key
           user_packages rest acc)"

text \<open>The body of the \<open>try\<close> block, lines 52 to 70: \<open>Inl\<close> is the exception it raises.\<close>

definition try_body :: "json_file \<Rightarrow> requirements \<Rightarrow> user_packages \<Rightarrow> exn + violation list" where
  "try_body json_file requirements user_packages =
     (case data json_file of
        OpenFails m \<Rightarrow> Inl (OSError m)
      | DecodeFails m \<Rightarrow> Inl (UnicodeDecodeError m)
      | ParseFails m \<Rightarrow> Inl (JSONDecodeError m)
      | NestsTooDeep m \<Rightarrow> Inl (RecursionError m)
      | Loads d \<Rightarrow>
          bind_exn (py_get d ''Data'' (JDict [])) (\<lambda>d1.
          bind_exn (py_get d1 ''resources'' (JList [])) (\<lambda>server_resources.
          bind_exn (py_get d ''Data'' (JDict [])) (\<lambda>d2.
          bind_exn (py_get d2 ''ownerName'' (JStr ''N/A'')) (\<lambda>oname.
          bind_exn (py_get d ''Data'' (JDict [])) (\<lambda>d3.
          bind_exn (py_get d3 ''ownerProfile'' (JStr ''N/A'')) (\<lambda>oprofile.
          bind_exn (py_get d ''EndPoint'' (JStr ''N/A'')) (\<lambda>scode.
          bind_exn (py_lower oname) (\<lambda>owner_key.
            check_requirements (name json_file) scode oname oprofile server_resources
              owner_key user_packages requirements [])))))))))"

text \<open>The two \<open>except\<close> clauses, lines 71 to 74, and the return of line 75. The first
  clause takes the two classes it names, the second every \<open>Exception\<close>; an exception that
  neither takes leaves the function (\<open>Inl\<close>).\<close>

fun is_read_error :: "exn \<Rightarrow> bool" where
  "is_read_error (JSONDecodeError _) = True"
| "is_read_error (UnicodeDecodeError _) = True"
| "is_read_error _ = False"

definition process_json_file ::
  "json_file \<times> requirements \<times> user_packages \<Rightarrow> exn + violation list \<times> string option" where
  "process_json_file args =
     (case args of (json_file, requirements, user_packages) \<Rightarrow>
        (case try_body json_file requirements user_packages of
           Inr unauthorized_servers \<Rightarrow> Inr (unauthorized_servers, None)
         | Inl e \<Rightarrow>
             if is_read_error e
             then Inr ([], Some (''Error reading '' @ name json_file @ '': '' @ str_exn e))
             else if is_Exception e
             then Inr ([], Some (''Unexpected error with '' @ name json_file @ '': '' @ str_exn e))
             else Inl e))"

text \<open>The dict appended at lines 63 to 70, for the rule \<open>(resource, required_package)\<close>.\<close>

definition entry :: "string \<Rightarrow> json \<Rightarrow> json \<Rightarrow> json \<Rightarrow> string \<times> string \<Rightarrow> violation" where
  "entry fname scode oname oprofile rule =
     \<lparr>server_code = scode, owner_name = oname, owner_profile = oprofile,
      resource = fst rule, required_package = snd rule, file_name = fname\<rparr>"

section \<open>The scan coordinator: \<open>scan_servers_parallel\<close>\<close>

text \<open>What the scan prints. A progress line carries \<open>processed_files\<close>, \<open>total_files\<close>
  and \<open>found_servers\<close>; the percentage shown with them is a function of the first two.\<close>

datatype printed =
    NoFilesFound
  | FoundFiles nat
  | ErrorLine string
  | Progress nat nat nat
  | Newline

text \<open>\<open>as_completed\<close> yields the submitted futures in the order in which the workers
  finish, which the pool decides. The schedule is that decision: each number picks, among
  the futures still pending, the next one to finish; when the schedule is used up the
  rest finish in submission order. Every schedule yields a permutation of the futures and
  every permutation comes from a schedule.\<close>

fun as_completed :: "nat list \<Rightarrow> 'a list \<Rightarrow> 'a list" where
  "as_completed sched [] = []"
| "as_completed [] (p # ps) = p # ps"
| "as_completed (k # ks) (p # ps) =
     (let i = k mod length (p # ps) in
      (p # ps) ! i # as_completed ks (take i (p # ps) @ drop (Suc i) (p # ps)))"

record scan_state =
  unauthorized_servers :: "violation list"
  processed_files :: nat
  found_servers :: nat
  stdout :: "printed list"

text \<open>The truth value of \<open>error\<close> at line 93: \<open>None\<close> and the empty string are false.\<close>

fun truthy :: "string option \<Rightarrow> bool" where
  "truthy None = False"
| "truthy (Some s) = (s \<noteq> [])"

text \<open>One turn of the loop of lines 90 to 99, on the result of one future.\<close>

definition collect_result ::
  "nat \<Rightarrow> violation list \<times> string option \<Rightarrow> scan_state \<Rightarrow> scan_state" where
  "collect_result total_files res st =
     (case res of (result, error) \<Rightarrow>
        (let st1 = st\<lparr>processed_files := processed_files st + 1\<rparr>;
             st2 = (if truthy error then st1\<lparr>stdout := stdout st1 @ [ErrorLine (the error)]\<rparr>
                    else st1);
             st3 = (if result \<noteq> []
                    then st2\<lparr>found_servers := found_servers st2 + length result,
                             unauthorized_servers := unauthorized_servers st2 @ result\<rparr>
                    else st2)
         in st3\<lparr>stdout := stdout st3 @
                   [Progress (processed_files st3) total_files (found_servers st3)]\<rparr>))"

text \<open>The loop of lines 90 to 99 over the futures in the order of their completion.
  \<open>future.result()\<close> raises again what the call raised, which ends the scan.\<close>

fun collect_all ::
  "nat \<Rightarrow> (exn + violation list \<times> string option) list \<Rightarrow> scan_state \<Rightarrow> exn + scan_state" where
  "collect_all total_files [] st = Inr st"
| "collect_all total_files (Inl e # rest) st = Inl e"
| "collect_all total_files (Inr res # rest) st =
     collect_all total_files rest (collect_result total_files res st)"

text \<open>The scan. \<open>json_files\<close> is the list that \<open>glob\<close> returns, \<open>sched\<close> the order in
  which the pool finishes. The result is the returned triple and what was printed, or
  the exception that leaves the scan.\<close>

definition scan_servers_parallel ::
  "nat list \<Rightarrow> json_file list \<Rightarrow> requirements \<Rightarrow> user_packages
    \<Rightarrow> exn + (violation list \<times> nat \<times> nat) \<times> printed list" where
  "scan_servers_parallel sched json_files requirements user_packages =
     (let total_files = length json_files in
      if total_files = 0 then Inr (([], 0, 0), [NoFilesFound])
      else
        (let args_list = map (\<lambda>file. (file, requirements, user_packages)) json_files;
             futures = map process_json_file args_list
         in bind_exn
              (collect_all total_files (as_completed sched futures)
                 \<lparr>unauthorized_servers = [], processed_files = 0, found_servers = 0,
                  stdout = [FoundFiles total_files]\<rparr>)
              (\<lambda>st. Inr ((unauthorized_servers st, processed_files st, found_servers st),
                         stdout st @ [Newline]))))"

text \<open>The diagnostics of a run: the error lines among what it printed.\<close>

fun diagnostics :: "printed list \<Rightarrow> string list" where
  "diagnostics [] = []"
| "diagnostics (ErrorLine e # out) = e # diagnostics out"
| "diagnostics (_ # out) = diagnostics out"

text \<open>What the loop takes from one future that returned: the list it appends at line
  97, and what it prints at line 94 (the \<open>error\<close>, when that is true).\<close>

definition violations_of :: "exn + violation list \<times> string option \<Rightarrow> violation list" where
  "violations_of res = (case res of Inr (result, error) \<Rightarrow> result | Inl e \<Rightarrow> [])"

definition diagnostic_of :: "exn + violation list \<times> string option \<Rightarrow> string list" where
  "diagnostic_of res =
     (case res of
        Inr (result, error) \<Rightarrow> if truthy error then [the error] else []
      | Inl e \<Rightarrow> [])"

section \<open>The customer index: \<open>load_customer_packages\<close>\<close>

text \<open>\<open>str.isspace\<close> on one code point below 256, which is also what \<open>\s\<close> matches in
  a \<open>str\<close> pattern: tab, line feed, vertical tab, form feed, carriage return, the four
  separators \<open>0x1C\<close> to \<open>0x1F\<close>, the space, the next-line control \<open>U+0085\<close> and the
  no-break space \<open>U+00A0\<close>. \<open>strip\<close> removes them at both ends; \<open>replace\<close> is
  \<open>s.replace(old, new)\<close> for a one-character \<open>old\<close>; \<open>re_split\<close> is
  \<open>re.split(r"[,\s]+", s)\<close>: the pieces between the maximal runs of separators, the
  empty piece before a leading run and after a trailing run included.\<close>

definition isspace :: "char \<Rightarrow> bool" where
  "isspace c =
     (c \<in> set [CHR 0x09, CHR 0x0A, CHR 0x0B, CHR 0x0C, CHR 0x0D,
               CHR 0x1C, CHR 0x1D, CHR 0x1E, CHR 0x1F, CHR 0x20, CHR 0x85, CHR 0xA0])"

definition strip :: "string \<Rightarrow> string" where
  "strip s = rev (dropWhile isspace (rev (dropWhile isspace s)))"

definition replace :: "char \<Rightarrow> string \<Rightarrow> string \<Rightarrow> string" where
  "replace old new s = concat (map (\<lambda>c. if c = old then new else [c]) s)"

definition is_sep :: "char \<Rightarrow> bool" where
  "is_sep c = (c = CHR '','' \<or> isspace c)"

function re_split_from :: "string \<Rightarrow> string \<Rightarrow> string list" where
  "re_split_from cur [] = [rev cur]"
| "re_split_from cur (c # cs) =
     (if is_sep c then rev cur # re_split_from [] (dropWhile is_sep cs)
      else re_split_from (c # cur) cs)"
  by pat_completeness auto
termination
  by (relation "measure (\<lambda>(cur, s). length s)")
     (auto simp: less_Suc_eq_le length_dropWhile_le)

definition re_split :: "string \<Rightarrow> string list" where
  "re_split s = re_split_from [] s"

text \<open>A row of \<open>csv.DictReader\<close>: a dict from the column names to the fields, where a
  column that the row is too short for holds \<open>None\<close>. The file is the first that
  \<open>glob("*.csv")\<close> lists.\<close>

type_synonym csv_row = "(string \<times> string option) list"

datatype csv_file = CsvOpenFails string | CsvRows "csv_row list"

definition row_get :: "csv_row \<Rightarrow> string \<Rightarrow> string \<Rightarrow> string option" where
  "row_get row k d = (case map_of row k of None \<Rightarrow> Some d | Some v \<Rightarrow> v)"

fun py_strip :: "string option \<Rightarrow> exn + string" where
  "py_strip None = Inl (AttributeError ''NoneType'' ''strip'')"
| "py_strip (Some s) = Inr (strip s)"

text \<open>Lines 39 to 42: the set of packages read from the stripped \<open>Packages\<close> field.\<close>

definition split_packages :: "string \<Rightarrow> string set" where
  "split_packages packages_field =
     (let clean_field =
            replace (CHR 0x22) [] (replace (CHR '']'') [] (replace (CHR ''['') [] packages_field));
          clean_field' = replace (CHR '';'') '','' clean_field;
          owned_packages = set (re_split clean_field')
      in strip ` {p \<in> owned_packages. strip p \<noteq> []})"

text \<open>The loop of lines 33 to 45; \<open>username'\<close> is \<open>username\<close> after line 38.\<close>

fun load_rows :: "csv_row list \<Rightarrow> user_packages \<Rightarrow> exn + user_packages" where
  "load_rows [] user_packages = Inr user_packages"
| "load_rows (row # rest) user_packages =
     bind_exn (py_strip (row_get row ''Username'' [])) (\<lambda>username.
     bind_exn (py_strip (row_get row ''Packages'' [])) (\<lambda>packages_field.
       if username = [] then load_rows rest user_packages
       else
         (let username' = lower username;
              owned_packages = split_packages packages_field;
              user_packages' =
                (if username' \<notin> dom user_packages then user_packages(username' \<mapsto> {})
                 else user_packages)
          in load_rows rest
               (user_packages'(username' \<mapsto> the (user_packages' username') \<union> owned_packages)))))"

definition load_customer_packages :: "csv_file list \<Rightarrow> exn + user_packages" where
  "load_customer_packages csv_files =
     (case csv_files of
        [] \<Rightarrow> Inr Map.empty
      | CsvOpenFails m # _ \<Rightarrow> Inl (OSError m)
      | CsvRows rows # _ \<Rightarrow> load_rows rows Map.empty)"

section \<open>The properties the specification names\<close>

text \<open>Following the specification, section 4.2: the key \<open>(source_identifier, resource)\<close>
  of the final ordering it asks for. tool.py has no counterpart.\<close>

definition spec_sort_key :: "violation \<Rightarrow> string \<times> string" where
  "spec_sort_key v = (file_name v, resource v)"

text \<open>Following the specification, section 6: a \<open>Packages\<close> field is normalized by
  stripping the bracket and quote characters, treating \<open>;\<close> as \<open>,\<close>, splitting at every
  comma and whitespace character, and dropping the empty fragments.\<close>

fun split_at_each :: "(char \<Rightarrow> bool) \<Rightarrow> string \<Rightarrow> string list" where
  "split_at_each P [] = [[]]"
| "split_at_each P (c # cs) =
     (if P c then [] # split_at_each P cs
      else (c # hd (split_at_each P cs)) # tl (split_at_each P cs))"

definition spec_packages :: "string \<Rightarrow> string set" where
  "spec_packages field =
     (let stripped = filter (\<lambda>c. c \<notin> set [CHR ''['', CHR '']'', CHR 0x22]) field;
          commas = map (\<lambda>c. if c = CHR '';'' then CHR '','' else c) stripped
      in set (filter (\<lambda>w. w \<noteq> []) (split_at_each is_sep commas)))"

text \<open>Following the specification: the lookup key of a row is its username, lower-cased
  (tool.py strips it first and skips a blank one); its packages are the normalized field;
  the index maps a key to the union of the packages of the rows with that key.\<close>

definition row_key :: "csv_row \<Rightarrow> string option" where
  "row_key row =
     (case row_get row ''Username'' [] of
        None \<Rightarrow> None
      | Some u \<Rightarrow> if strip u = [] then None else Some (lower (strip u)))"

definition row_packages :: "csv_row \<Rightarrow> string set" where
  "row_packages row =
     (case row_get row ''Packages'' [] of None \<Rightarrow> {} | Some p \<Rightarrow> spec_packages p)"

text \<open>A row that holds both columns, so that neither \<open>.strip()\<close> meets \<open>None\<close>.\<close>

definition well_formed_row :: "csv_row \<Rightarrow> bool" where
  "well_formed_row row =
     (row_get row ''Username'' [] \<noteq> None \<and> row_get row ''Packages'' [] \<noteq> None)"

definition spec_customer_index :: "csv_row list \<Rightarrow> user_packages" where
  "spec_customer_index rows k =
     (let matching = filter (\<lambda>row. row_key row = Some k) rows
      in if matching = [] then None else Some (\<Union> (set (map row_packages matching))))"

definition clean :: "string \<Rightarrow> string" where
  "clean s = map (\<lambda>c. if c = CHR '';'' then CHR '','' else c)
               (filter (\<lambda>c. c \<notin> set [CHR ''['', CHR '']'', CHR 0x22]) s)"

section \<open>The record evaluator\<close>

lemma lower_examples:
  "lower ''Alice Z@['' = ''alice z@[''"
  "lower [CHR 0xC9, CHR ''M'', CHR 0xD7, CHR 0xDE, CHR 0xDF, CHR 0xFF, CHR 0xC0] = [CHR 0xE9, CHR ''m'', CHR 0xD7, CHR 0xFE, CHR 0xDF, CHR 0xFF, CHR 0xE0]"
  by (simp_all add: lower_def lower_char_def)

lemma check_requirements_no_resources:
  "check_requirements fname scode oname oprofile (JList []) owner_key user_packages
     requirements acc = Inr acc"
  by (induction requirements arbitrary: acc) (auto simp: bind_exn_def)

lemma check_requirements_Inr:
  "check_requirements fname scode oname oprofile res owner_key up reqs acc = Inr vs \<Longrightarrow>
   vs = acc @ map (entry fname scode oname oprofile)
          (filter (\<lambda>rule. py_in (fst rule) res = Inr True \<and> snd rule \<notin> owned_by up owner_key) reqs)"
proof (induction reqs arbitrary: acc)
  case Nil
  then show ?case by simp
next
  case (Cons rule reqs)
  obtain r p where rule: "rule = (r, p)" by (cases rule)
  show ?case
  proof (cases "py_in r res")
    case (Inl e)
    with Cons.prems rule show ?thesis by (simp add: bind_exn_def)
  next
    case (Inr used)
    with Cons.prems rule show ?thesis
      by (cases used) (auto simp: bind_exn_def entry_def Let_def split: if_splits dest!: Cons.IH)
  qed
qed

lemma check_requirements_list:
  "check_requirements fname scode oname oprofile (JList rs) owner_key up reqs acc =
   Inr (acc @ map (entry fname scode oname oprofile)
          (filter (\<lambda>rule. JStr (fst rule) \<in> set rs \<and> snd rule \<notin> owned_by up owner_key) reqs))"
  by (induction reqs arbitrary: acc) (auto simp: bind_exn_def entry_def Let_def)

lemma bind_exn_InrE:
  assumes "bind_exn m g = Inr y"
  obtains x where "m = Inr x" and "g x = Inr y"
  using assms by (cases m) (simp_all add: bind_exn_def)

lemma bind_exn_InlE:
  assumes "bind_exn m g = Inl e"
  obtains "m = Inl e" | x where "m = Inr x" and "g x = Inl e"
  using assms by (cases m) (simp_all add: bind_exn_def)

lemma py_get_raises: "py_get v k d = Inl e \<Longrightarrow> is_Exception e \<and> \<not> is_read_error e"
  by (cases v) auto

lemma py_lower_raises: "py_lower v = Inl e \<Longrightarrow> is_Exception e \<and> \<not> is_read_error e"
  by (cases v) auto

lemma py_in_raises: "py_in r v = Inl e \<Longrightarrow> is_Exception e \<and> \<not> is_read_error e"
  by (cases v) auto

lemma check_requirements_raises:
  "check_requirements fname scode oname oprofile res owner_key up reqs acc = Inl e \<Longrightarrow>
   is_Exception e \<and> \<not> is_read_error e"
proof (induction reqs arbitrary: acc)
  case Nil
  then show ?case by simp
next
  case (Cons rule reqs)
  obtain r p where rule: "rule = (r, p)" by (cases rule)
  from Cons.prems show ?case
    unfolding rule check_requirements.simps
  proof (cases rule: bind_exn_InlE)
    case 1
    then show ?thesis by (rule py_in_raises)
  next
    case (2 used)
    then show ?thesis
      by (auto simp: Let_def split: if_splits dest: Cons.IH)
  qed
qed

lemma try_body_raises:
  assumes "try_body f reqs up = Inl e"
  shows "is_Exception e"
proof (cases "data f")
  case (Loads d)
  with assms have "bind_exn (py_get d ''Data'' (JDict [])) (\<lambda>d1.
          bind_exn (py_get d1 ''resources'' (JList [])) (\<lambda>server_resources.
          bind_exn (py_get d ''Data'' (JDict [])) (\<lambda>d2.
          bind_exn (py_get d2 ''ownerName'' (JStr ''N/A'')) (\<lambda>oname.
          bind_exn (py_get d ''Data'' (JDict [])) (\<lambda>d3.
          bind_exn (py_get d3 ''ownerProfile'' (JStr ''N/A'')) (\<lambda>oprofile.
          bind_exn (py_get d ''EndPoint'' (JStr ''N/A'')) (\<lambda>scode.
          bind_exn (py_lower oname) (\<lambda>owner_key.
            check_requirements (name f) scode oname oprofile server_resources
              owner_key up reqs [])))))))) = Inl e"
    by (simp add: try_body_def)
  then show ?thesis
    by (elim bind_exn_InlE)
       (auto dest: py_get_raises py_lower_raises check_requirements_raises)
qed (insert assms, auto simp: try_body_def)

lemma process_json_file_returns:
  "process_json_file (f, reqs, up) =
     Inr (case try_body f reqs up of
            Inr vs \<Rightarrow> (vs, None)
          | Inl e \<Rightarrow>
              ([], Some ((if is_read_error e then ''Error reading '' else ''Unexpected error with '')
                         @ name f @ '': '' @ str_exn e)))"
  using try_body_raises [of f reqs up]
  by (cases "try_body f reqs up") (simp_all add: process_json_file_def)

lemma process_json_file_valid:
  assumes "data f = Loads (JDict kvs)"
    and "py_get (JDict kvs) ''Data'' (JDict []) = Inr (JDict d)"
    and "py_get (JDict d) ''resources'' (JList []) = Inr (JList rs)"
    and "py_get (JDict d) ''ownerName'' (JStr ''N/A'') = Inr (JStr owner)"
  shows "process_json_file (f, reqs, up) =
    Inr (map (entry (name f)
            (case map_of kvs ''EndPoint'' of None \<Rightarrow> JStr ''N/A'' | Some v \<Rightarrow> v)
            (JStr owner)
            (case map_of d ''ownerProfile'' of None \<Rightarrow> JStr ''N/A'' | Some v \<Rightarrow> v))
       (filter (\<lambda>rule. JStr (fst rule) \<in> set rs \<and> snd rule \<notin> owned_by up (lower owner)) reqs),
     None)"
  using assms
  by (simp add: process_json_file_def try_body_def bind_exn_def check_requirements_list)

lemma filter_rule:
  assumes "distinct xs" and "x \<in> set xs"
  shows "filter (\<lambda>y. y = x \<and> P y) xs = (if P x then [x] else [])"
  using assms by (induction xs) (auto simp: filter_empty_conv)

lemma filter_entries:
  "filter (\<lambda>v. resource v = r \<and> required_package v = p) (map (entry fname scode oname oprofile) rules)
     = map (entry fname scode oname oprofile) (filter (\<lambda>y. y = (r, p)) rules)"
  by (induction rules) (auto simp: entry_def)

lemma try_body_keys:
  assumes "try_body f reqs up = Inr vs"
  shows "\<exists>Q. map spec_sort_key vs = map (\<lambda>rule. (name f, fst rule)) (filter Q reqs)"
proof -
  from assms obtain scode oname oprofile res owner_key where
    "check_requirements (name f) scode oname oprofile res owner_key up reqs [] = Inr vs"
    unfolding try_body_def
    by (cases "data f"; simp) (elim bind_exn_InrE, blast)
  from check_requirements_Inr [OF this] show ?thesis
    by (auto simp: o_def entry_def spec_sort_key_def)
qed

lemma process_keys:
  "\<exists>Q. map spec_sort_key (violations_of (process_json_file (f, reqs, up)))
       = map (\<lambda>rule. (name f, fst rule)) (filter Q reqs)"
proof (cases "try_body f reqs up")
  case (Inl e)
  have "map spec_sort_key (violations_of (process_json_file (f, reqs, up)))
       = map (\<lambda>rule. (name f, fst rule)) (filter (\<lambda>_. False) reqs)"
    using Inl by (simp add: process_json_file_returns violations_of_def)
  then show ?thesis by blast
next
  case (Inr vs)
  with try_body_keys [OF Inr] show ?thesis
    by (simp add: process_json_file_returns violations_of_def)
qed

lemma process_json_file_no_requirements:
  "violations_of (process_json_file (f, [], up)) = []"
  using process_keys [of f "[]" up] by simp

lemma process_error_nonempty:
  "process_json_file (f, reqs, up) = Inr (vs, Some msg) \<Longrightarrow> msg \<noteq> [] \<and> vs = []"
  by (auto simp: process_json_file_returns split: sum.splits if_splits)

lemma diagnostic_of_process:
  "diagnostic_of (process_json_file (f, reqs, up)) =
     (case process_json_file (f, reqs, up) of Inr (vs, Some msg) \<Rightarrow> [msg] | _ \<Rightarrow> [])"
proof (cases "process_json_file (f, reqs, up)")
  case (Inl e)
  then show ?thesis by (simp add: diagnostic_of_def)
next
  case (Inr res)
  obtain vs err where res: "res = (vs, err)" by (cases res)
  show ?thesis
  proof (cases err)
    case None
    with Inr res show ?thesis by (simp add: diagnostic_of_def)
  next
    case (Some msg)
    with Inr res process_error_nonempty [of f reqs up vs msg] show ?thesis
      by (simp add: diagnostic_of_def)
  qed
qed

text \<open>
  C1: for a record that loads as an object whose \<open>Data\<close> is an object (or is missing),
  whose \<open>resources\<close> is a list and whose \<open>ownerName\<close> is a string, and for every rule
  \<open>(r, p)\<close> of the entitlement table, the evaluator returns, with no diagnostic, exactly
  one entry for that rule if \<open>r\<close> is among the record's resources and \<open>p\<close> is not among
  the packages that the customer index holds for the lower-cased owner (none for an absent
  owner), and no entry for that rule otherwise. The entry carries the record's server
  code, owner, owner profile and file name.
\<close>

theorem process_json_file_violation_iff:
  assumes "data f = Loads (JDict kvs)"
    and "py_get (JDict kvs) ''Data'' (JDict []) = Inr (JDict d)"
    and "py_get (JDict d) ''resources'' (JList []) = Inr (JList rs)"
    and "py_get (JDict d) ''ownerName'' (JStr ''N/A'') = Inr (JStr owner)"
    and "distinct (map fst reqs)"
    and "(r, p) \<in> set reqs"
  shows "\<exists>result. process_json_file (f, reqs, up) = Inr (result, None) \<and>
           filter (\<lambda>v. resource v = r \<and> required_package v = p) result =
             (if JStr r \<in> set rs \<and>
                 p \<notin> (case up (lower owner) of None \<Rightarrow> {} | Some owned \<Rightarrow> owned)
              then [\<lparr>server_code =
                       (case map_of kvs ''EndPoint'' of None \<Rightarrow> JStr ''N/A'' | Some v \<Rightarrow> v),
                     owner_name = JStr owner,
                     owner_profile =
                       (case map_of d ''ownerProfile'' of None \<Rightarrow> JStr ''N/A'' | Some v \<Rightarrow> v),
                     resource = r, required_package = p, file_name = name f\<rparr>]
              else [])"
proof -
  let ?P = "\<lambda>rule. JStr (fst rule) \<in> set rs \<and> snd rule \<notin> owned_by up (lower owner)"
  let ?entry = "entry (name f)
            (case map_of kvs ''EndPoint'' of None \<Rightarrow> JStr ''N/A'' | Some v \<Rightarrow> v)
            (JStr owner)
            (case map_of d ''ownerProfile'' of None \<Rightarrow> JStr ''N/A'' | Some v \<Rightarrow> v)"
  have d: "distinct reqs"
    using assms(5) by (rule distinct_map [THEN iffD1, THEN conjunct1])
  have "filter (\<lambda>v. resource v = r \<and> required_package v = p) (map ?entry (filter ?P reqs))
      = map ?entry (filter (\<lambda>y. y = (r, p)) (filter ?P reqs))"
    by (rule filter_entries)
  also have "filter (\<lambda>y. y = (r, p)) (filter ?P reqs) = filter (\<lambda>y. y = (r, p) \<and> ?P y) reqs"
    by (simp add: conj_commute)
  also have "\<dots> = (if ?P (r, p) then [(r, p)] else [])"
    by (rule filter_rule [OF d assms(6)])
  finally have "filter (\<lambda>v. resource v = r \<and> required_package v = p) (map ?entry (filter ?P reqs))
      = (if ?P (r, p) then [?entry (r, p)] else [])"
    by simp
  then show ?thesis
    by (simp add: process_json_file_valid [OF assms(1-4)] entry_def owned_by_def)
qed

text \<open>
  C3: the evaluator returns for every input, and returns zero violations whenever it
  returns a diagnostic. Each fault of the record gives a diagnostic made of the file name
  and the cause: a file that cannot be opened, decoded or parsed, or nests too deep; a
  loaded value that is no object; a \<open>Data\<close> that is no object; an \<open>ownerName\<close> that is
  no string; and, under a table that is not empty, \<open>resources\<close> that is no list, string
  or object.
\<close>

theorem process_json_file_faults:
  "(\<exists>result error. process_json_file (f, reqs, up) = Inr (result, error) \<and>
       (error \<noteq> None \<longrightarrow> result = [])) \<and>
   (data f = OpenFails m \<longrightarrow>
      process_json_file (f, reqs, up) =
        Inr ([], Some (''Unexpected error with '' @ name f @ '': '' @ m))) \<and>
   (data f = DecodeFails m \<longrightarrow>
      process_json_file (f, reqs, up) =
        Inr ([], Some (''Error reading '' @ name f @ '': '' @ m))) \<and>
   (data f = ParseFails m \<longrightarrow>
      process_json_file (f, reqs, up) =
        Inr ([], Some (''Error reading '' @ name f @ '': '' @ m))) \<and>
   (data f = NestsTooDeep m \<longrightarrow>
      process_json_file (f, reqs, up) =
        Inr ([], Some (''Unexpected error with '' @ name f @ '': '' @ m))) \<and>
   (data f = Loads j \<and> (\<forall>kvs. j \<noteq> JDict kvs) \<longrightarrow>
      process_json_file (f, reqs, up) =
        Inr ([], Some (''Unexpected error with '' @ name f @ '': '' @ [CHR 0x27] @ type_name j
                       @ [CHR 0x27] @ '' object has no attribute '' @ [CHR 0x27] @ ''get''
                       @ [CHR 0x27]))) \<and>
   (data f = Loads (JDict kvs) \<and> map_of kvs ''Data'' = Some x \<and> (\<forall>d. x \<noteq> JDict d) \<longrightarrow>
      process_json_file (f, reqs, up) =
        Inr ([], Some (''Unexpected error with '' @ name f @ '': '' @ [CHR 0x27] @ type_name x
                       @ [CHR 0x27] @ '' object has no attribute '' @ [CHR 0x27] @ ''get''
                       @ [CHR 0x27]))) \<and>
   (data f = Loads (JDict kvs) \<and> py_get (JDict kvs) ''Data'' (JDict []) = Inr (JDict d) \<and>
    map_of d ''ownerName'' = Some y \<and> (\<forall>s. y \<noteq> JStr s) \<longrightarrow>
      process_json_file (f, reqs, up) =
        Inr ([], Some (''Unexpected error with '' @ name f @ '': '' @ [CHR 0x27] @ type_name y
                       @ [CHR 0x27] @ '' object has no attribute '' @ [CHR 0x27] @ ''lower''
                       @ [CHR 0x27]))) \<and>
   (data f = Loads (JDict kvs) \<and> py_get (JDict kvs) ''Data'' (JDict []) = Inr (JDict d) \<and>
    py_get (JDict d) ''ownerName'' (JStr ''N/A'') = Inr (JStr owner) \<and>
    map_of d ''resources'' = Some z \<and>
    (\<forall>xs. z \<noteq> JList xs) \<and> (\<forall>s. z \<noteq> JStr s) \<and> (\<forall>ps. z \<noteq> JDict ps) \<and> reqs \<noteq> [] \<longrightarrow>
      process_json_file (f, reqs, up) =
        Inr ([], Some (''Unexpected error with '' @ name f @ '': '' @ ''argument of type ''
                       @ [CHR 0x27] @ type_name z @ [CHR 0x27] @ '' is not iterable'')))"
proof (intro conjI impI)
  show "\<exists>result error. process_json_file (f, reqs, up) = Inr (result, error) \<and>
       (error \<noteq> None \<longrightarrow> result = [])"
    by (cases "try_body f reqs up") (simp_all add: process_json_file_returns)
next
  assume "data f = Loads j \<and> (\<forall>kvs. j \<noteq> JDict kvs)"
  then show "process_json_file (f, reqs, up) =
        Inr ([], Some (''Unexpected error with '' @ name f @ '': '' @ [CHR 0x27] @ type_name j
                       @ [CHR 0x27] @ '' object has no attribute '' @ [CHR 0x27] @ ''get''
                       @ [CHR 0x27]))"
    by (cases j) (simp_all add: process_json_file_def try_body_def bind_exn_def)
next
  assume "data f = Loads (JDict kvs) \<and> map_of kvs ''Data'' = Some x \<and> (\<forall>d. x \<noteq> JDict d)"
  then show "process_json_file (f, reqs, up) =
        Inr ([], Some (''Unexpected error with '' @ name f @ '': '' @ [CHR 0x27] @ type_name x
                       @ [CHR 0x27] @ '' object has no attribute '' @ [CHR 0x27] @ ''get''
                       @ [CHR 0x27]))"
    by (cases x) (simp_all add: process_json_file_def try_body_def bind_exn_def)
next
  assume "data f = Loads (JDict kvs) \<and> py_get (JDict kvs) ''Data'' (JDict []) = Inr (JDict d) \<and>
    map_of d ''ownerName'' = Some y \<and> (\<forall>s. y \<noteq> JStr s)"
  then show "process_json_file (f, reqs, up) =
        Inr ([], Some (''Unexpected error with '' @ name f @ '': '' @ [CHR 0x27] @ type_name y
                       @ [CHR 0x27] @ '' object has no attribute '' @ [CHR 0x27] @ ''lower''
                       @ [CHR 0x27]))"
    by (cases y) (simp_all add: process_json_file_def try_body_def bind_exn_def)
next
  assume a: "data f = Loads (JDict kvs) \<and> py_get (JDict kvs) ''Data'' (JDict []) = Inr (JDict d) \<and>
    py_get (JDict d) ''ownerName'' (JStr ''N/A'') = Inr (JStr owner) \<and>
    map_of d ''resources'' = Some z \<and>
    (\<forall>xs. z \<noteq> JList xs) \<and> (\<forall>s. z \<noteq> JStr s) \<and> (\<forall>ps. z \<noteq> JDict ps) \<and> reqs \<noteq> []"
  then obtain rule rest where reqs: "reqs = rule # rest" by (cases reqs) auto
  obtain r p where rule: "rule = (r, p)" by (cases rule)
  from a show "process_json_file (f, reqs, up) =
        Inr ([], Some (''Unexpected error with '' @ name f @ '': '' @ ''argument of type ''
                       @ [CHR 0x27] @ type_name z @ [CHR 0x27] @ '' is not iterable''))"
    unfolding reqs rule
    by (cases z) (simp_all add: process_json_file_def try_body_def bind_exn_def)
qed (simp_all add: process_json_file_def try_body_def)

text \<open>
  C4, as the code has it: a record whose top-level object has no \<open>Data\<close> key is
  evaluated with the defaults of the three \<open>.get("Data", {})\<close> calls: no resources and
  the owner \<open>N/A\<close>. The evaluator returns normally with zero violations and with no
  diagnostic (\<open>None\<close>), whatever the entitlement table and the customer index are.
\<close>

theorem process_json_file_no_Data:
  "map_of kvs ''Data'' = None \<Longrightarrow>
   process_json_file (\<lparr>name = fname, data = Loads (JDict kvs)\<rparr>, requirements, user_packages)
     = Inr ([], None)"
  by (simp add: process_json_file_def try_body_def bind_exn_def lower_def
      check_requirements_no_resources)

lemma process_json_file_examples:
  "process_json_file
     (\<lparr>name = ''srv1.json'',
        data = Loads (JDict [(''EndPoint'', JStr ''srv1''),
                 (''Data'', JDict [(''ownerName'', JStr ''Alice''),
                                    (''resources'', JList [JStr ''gpu-cluster''])])])\<rparr>,
      [(''gpu-cluster'', ''pkg-gpu'')],
      map_of [(''alice'', {''pkg-gpu''}), (''bob'', {})]) = Inr ([], None)"
  "process_json_file
     (\<lparr>name = ''srv3.json'',
        data = Loads (JDict [(''EndPoint'', JStr ''srv3''),
                 (''Data'', JDict [(''ownerName'', JStr ''carol''),
                                    (''resources'', JList [JStr ''gpu-cluster''])])])\<rparr>,
      [(''gpu-cluster'', ''pkg-gpu'')],
      map_of [(''alice'', {''pkg-gpu''}), (''bob'', {})])
     = Inr ([\<lparr>server_code = JStr ''srv3'', owner_name = JStr ''carol'',
               owner_profile = JStr ''N/A'', resource = ''gpu-cluster'',
               required_package = ''pkg-gpu'', file_name = ''srv3.json''\<rparr>], None)"
  "process_json_file
     (\<lparr>name = ''srv5.json'',
        data = Loads (JDict [(''Data'', JDict [(''ownerName'', JStr ([CHR 0xC9] @ ''MILE'')),
                                    (''resources'', JList [JStr ''gpu-cluster''])])])\<rparr>,
      [(''gpu-cluster'', ''pkg-gpu'')],
      map_of [([CHR 0xE9] @ ''mile'', {''pkg-gpu''})]) = Inr ([], None)"
  "process_json_file
     (\<lparr>name = ''srv6.json'',
        data = Loads (JDict [(''Data'', JDict [(''resources'', JInt 5)])])\<rparr>,
      [(''gpu-cluster'', ''pkg-gpu'')], map_of [])
     = Inr ([], Some (''Unexpected error with srv6.json: argument of type '' @ [CHR 0x27]
                       @ ''int'' @ [CHR 0x27] @ '' is not iterable''))"
  by (simp_all add: process_json_file_def try_body_def bind_exn_def lower_def lower_char_def
      owned_by_def)

theorem process_json_file_violation_iff_witness:
  "(\<exists>result. process_json_file
       (\<lparr>name = ''srv1.json'',
          data = Loads (JDict [(''EndPoint'', JStr ''srv1''),
                   (''Data'', JDict [(''ownerName'', JStr ''Alice''),
                                      (''resources'', JList [JStr ''gpu-cluster''])])])\<rparr>,
        [(''gpu-cluster'', ''pkg-gpu'')],
        map_of [(''alice'', {''pkg-gpu''}), (''bob'', {}), ([CHR 0xE9] @ ''mile'', {''pkg-gpu''})])
       = Inr (result, None) \<and>
     filter (\<lambda>v. resource v = ''gpu-cluster'' \<and> required_package v = ''pkg-gpu'') result = []) \<and>
   (\<exists>result. process_json_file
       (\<lparr>name = ''srv2.json'',
          data = Loads (JDict [(''EndPoint'', JStr ''srv2''),
                   (''Data'', JDict [(''ownerName'', JStr ''Bob''),
                                      (''resources'', JList [JStr ''gpu-cluster''])])])\<rparr>,
        [(''gpu-cluster'', ''pkg-gpu'')],
        map_of [(''alice'', {''pkg-gpu''}), (''bob'', {}), ([CHR 0xE9] @ ''mile'', {''pkg-gpu''})])
       = Inr (result, None) \<and>
     filter (\<lambda>v. resource v = ''gpu-cluster'' \<and> required_package v = ''pkg-gpu'') result
       = [\<lparr>server_code = JStr ''srv2'', owner_name = JStr ''Bob'', owner_profile = JStr ''N/A'',
            resource = ''gpu-cluster'', required_package = ''pkg-gpu'',
            file_name = ''srv2.json''\<rparr>]) \<and>
   (\<exists>result. process_json_file
       (\<lparr>name = ''srv3.json'',
          data = Loads (JDict [(''EndPoint'', JStr ''srv3''),
                   (''Data'', JDict [(''ownerName'', JStr ''carol''),
                                      (''resources'', JList [JStr ''gpu-cluster''])])])\<rparr>,
        [(''gpu-cluster'', ''pkg-gpu'')],
        map_of [(''alice'', {''pkg-gpu''}), (''bob'', {}), ([CHR 0xE9] @ ''mile'', {''pkg-gpu''})])
       = Inr (result, None) \<and>
     filter (\<lambda>v. resource v = ''gpu-cluster'' \<and> required_package v = ''pkg-gpu'') result
       = [\<lparr>server_code = JStr ''srv3'', owner_name = JStr ''carol'', owner_profile = JStr ''N/A'',
            resource = ''gpu-cluster'', required_package = ''pkg-gpu'',
            file_name = ''srv3.json''\<rparr>]) \<and>
   (\<exists>result. process_json_file
       (\<lparr>name = ''srv5.json'',
          data = Loads (JDict [(''Data'', JDict [(''ownerName'', JStr ([CHR 0xC9] @ ''MILE'')),
                                      (''resources'', JList [JStr ''gpu-cluster''])])])\<rparr>,
        [(''gpu-cluster'', ''pkg-gpu'')],
        map_of [(''alice'', {''pkg-gpu''}), (''bob'', {}), ([CHR 0xE9] @ ''mile'', {''pkg-gpu''})])
       = Inr (result, None) \<and>
     filter (\<lambda>v. resource v = ''gpu-cluster'' \<and> required_package v = ''pkg-gpu'') result = [])"
proof (intro conjI)
  let ?reqs = "[(''gpu-cluster'', ''pkg-gpu'')]"
  let ?up = "map_of [(''alice'', {''pkg-gpu''}), (''bob'', {}), ([CHR 0xE9] @ ''mile'', {''pkg-gpu''})]"
  let ?P = "\<lambda>v. resource v = ''gpu-cluster'' \<and> required_package v = ''pkg-gpu''"
  show "\<exists>result. process_json_file
       (\<lparr>name = ''srv1.json'',
          data = Loads (JDict [(''EndPoint'', JStr ''srv1''),
                   (''Data'', JDict [(''ownerName'', JStr ''Alice''),
                                      (''resources'', JList [JStr ''gpu-cluster''])])])\<rparr>,
        ?reqs, ?up) = Inr (result, None) \<and> filter ?P result = []"
    using process_json_file_violation_iff
      [where f = "\<lparr>name = ''srv1.json'',
          data = Loads (JDict [(''EndPoint'', JStr ''srv1''),
                   (''Data'', JDict [(''ownerName'', JStr ''Alice''),
                                      (''resources'', JList [JStr ''gpu-cluster''])])])\<rparr>"
        and kvs = "[(''EndPoint'', JStr ''srv1''),
                   (''Data'', JDict [(''ownerName'', JStr ''Alice''),
                                      (''resources'', JList [JStr ''gpu-cluster''])])]"
        and d = "[(''ownerName'', JStr ''Alice''), (''resources'', JList [JStr ''gpu-cluster''])]"
        and rs = "[JStr ''gpu-cluster'']" and owner = "''Alice''" and reqs = ?reqs
        and r = "''gpu-cluster''" and p = "''pkg-gpu''" and up = ?up]
    by (simp add: lower_def lower_char_def)
  show "\<exists>result. process_json_file
       (\<lparr>name = ''srv2.json'',
          data = Loads (JDict [(''EndPoint'', JStr ''srv2''),
                   (''Data'', JDict [(''ownerName'', JStr ''Bob''),
                                      (''resources'', JList [JStr ''gpu-cluster''])])])\<rparr>,
        ?reqs, ?up) = Inr (result, None) \<and>
     filter ?P result
       = [\<lparr>server_code = JStr ''srv2'', owner_name = JStr ''Bob'', owner_profile = JStr ''N/A'',
            resource = ''gpu-cluster'', required_package = ''pkg-gpu'',
            file_name = ''srv2.json''\<rparr>]"
    using process_json_file_violation_iff
      [where f = "\<lparr>name = ''srv2.json'',
          data = Loads (JDict [(''EndPoint'', JStr ''srv2''),
                   (''Data'', JDict [(''ownerName'', JStr ''Bob''),
                                      (''resources'', JList [JStr ''gpu-cluster''])])])\<rparr>"
        and kvs = "[(''EndPoint'', JStr ''srv2''),
                   (''Data'', JDict [(''ownerName'', JStr ''Bob''),
                                      (''resources'', JList [JStr ''gpu-cluster''])])]"
        and d = "[(''ownerName'', JStr ''Bob''), (''resources'', JList [JStr ''gpu-cluster''])]"
        and rs = "[JStr ''gpu-cluster'']" and owner = "''Bob''" and reqs = ?reqs
        and r = "''gpu-cluster''" and p = "''pkg-gpu''" and up = ?up]
    by (simp add: lower_def lower_char_def)
  show "\<exists>result. process_json_file
       (\<lparr>name = ''srv3.json'',
          data = Loads (JDict [(''EndPoint'', JStr ''srv3''),
                   (''Data'', JDict [(''ownerName'', JStr ''carol''),
                                      (''resources'', JList [JStr ''gpu-cluster''])])])\<rparr>,
        ?reqs, ?up) = Inr (result, None) \<and>
     filter ?P result
       = [\<lparr>server_code = JStr ''srv3'', owner_name = JStr ''carol'', owner_profile = JStr ''N/A'',
            resource = ''gpu-cluster'', required_package = ''pkg-gpu'',
            file_name = ''srv3.json''\<rparr>]"
    using process_json_file_violation_iff
      [where f = "\<lparr>name = ''srv3.json'',
          data = Loads (JDict [(''EndPoint'', JStr ''srv3''),
                   (''Data'', JDict [(''ownerName'', JStr ''carol''),
                                      (''resources'', JList [JStr ''gpu-cluster''])])])\<rparr>"
        and kvs = "[(''EndPoint'', JStr ''srv3''),
                   (''Data'', JDict [(''ownerName'', JStr ''carol''),
                                      (''resources'', JList [JStr ''gpu-cluster''])])]"
        and d = "[(''ownerName'', JStr ''carol''), (''resources'', JList [JStr ''gpu-cluster''])]"
        and rs = "[JStr ''gpu-cluster'']" and owner = "''carol''" and reqs = ?reqs
        and r = "''gpu-cluster''" and p = "''pkg-gpu''" and up = ?up]
    by (simp add: lower_def lower_char_def)
  show "\<exists>result. process_json_file
       (\<lparr>name = ''srv5.json'',
          data = Loads (JDict [(''Data'', JDict [(''ownerName'', JStr ([CHR 0xC9] @ ''MILE'')),
                                      (''resources'', JList [JStr ''gpu-cluster''])])])\<rparr>,
        ?reqs, ?up) = Inr (result, None) \<and> filter ?P result = []"
    using process_json_file_violation_iff
      [where f = "\<lparr>name = ''srv5.json'',
          data = Loads (JDict [(''Data'', JDict [(''ownerName'', JStr ([CHR 0xC9] @ ''MILE'')),
                                      (''resources'', JList [JStr ''gpu-cluster''])])])\<rparr>"
        and kvs = "[(''Data'', JDict [(''ownerName'', JStr ([CHR 0xC9] @ ''MILE'')),
                                      (''resources'', JList [JStr ''gpu-cluster''])])]"
        and d = "[(''ownerName'', JStr ([CHR 0xC9] @ ''MILE'')),
                  (''resources'', JList [JStr ''gpu-cluster''])]"
        and rs = "[JStr ''gpu-cluster'']" and owner = "[CHR 0xC9] @ ''MILE''" and reqs = ?reqs
        and r = "''gpu-cluster''" and p = "''pkg-gpu''" and up = ?up]
    by (simp add: lower_def lower_char_def)
qed

theorem process_json_file_faults_witness:
  "process_json_file
     (\<lparr>name = ''bad.json'', data = Loads (JDict [(''Data'', JNull)])\<rparr>,
      [(''gpu-cluster'', ''pkg-gpu'')], map_of [])
     = Inr ([], Some (''Unexpected error with bad.json: '' @ [CHR 0x27] @ ''NoneType''
                      @ [CHR 0x27] @ '' object has no attribute '' @ [CHR 0x27] @ ''get''
                      @ [CHR 0x27])) \<and>
   process_json_file
     (\<lparr>name = ''cut.json'', data = ParseFails ''Expecting value: line 1 column 1 (char 0)''\<rparr>,
      [(''gpu-cluster'', ''pkg-gpu'')], map_of [])
     = Inr ([], Some ''Error reading cut.json: Expecting value: line 1 column 1 (char 0)'') \<and>
   process_json_file
     (\<lparr>name = ''num.json'',
        data = Loads (JDict [(''Data'', JDict [(''resources'', JInt 5)])])\<rparr>,
      [(''gpu-cluster'', ''pkg-gpu'')], map_of [])
     = Inr ([], Some (''Unexpected error with num.json: argument of type '' @ [CHR 0x27]
                      @ ''int'' @ [CHR 0x27] @ '' is not iterable''))"
  using process_json_file_faults
      [where f = "\<lparr>name = ''bad.json'', data = Loads (JDict [(''Data'', JNull)])\<rparr>"
        and reqs = "[(''gpu-cluster'', ''pkg-gpu'')]" and up = "map_of []"
        and kvs = "[(''Data'', JNull)]" and x = JNull]
    process_json_file_faults
      [where f = "\<lparr>name = ''cut.json'',
                    data = ParseFails ''Expecting value: line 1 column 1 (char 0)''\<rparr>"
        and reqs = "[(''gpu-cluster'', ''pkg-gpu'')]" and up = "map_of []"
        and m = "''Expecting value: line 1 column 1 (char 0)''"]
    process_json_file_faults
      [where f = "\<lparr>name = ''num.json'',
                    data = Loads (JDict [(''Data'', JDict [(''resources'', JInt 5)])])\<rparr>"
        and reqs = "[(''gpu-cluster'', ''pkg-gpu'')]" and up = "map_of []"
        and kvs = "[(''Data'', JDict [(''resources'', JInt 5)])]"
        and d = "[(''resources'', JInt 5)]" and owner = "''N/A''" and z = "JInt 5"]
  by simp

theorem process_json_file_no_Data_witness:
  "map_of [(''EndPoint'', JStr ''srv9'')] ''Data'' = None \<and>
   process_json_file
     (\<lparr>name = ''srv9.json'', data = Loads (JDict [(''EndPoint'', JStr ''srv9'')])\<rparr>,
      [(''gpu-cluster'', ''pkg-gpu'')], [''alice'' \<mapsto> {''pkg-gpu''}]) = Inr ([], None)"
  using process_json_file_no_Data
    [of "[(''EndPoint'', JStr ''srv9'')]" "''srv9.json''" "[(''gpu-cluster'', ''pkg-gpu'')]"
        "[''alice'' \<mapsto> {''pkg-gpu''}]"]
  by simp

text \<open>
  C4 as stated asks for exactly one diagnostic. The record \<open>{}\<close>, an object with no
  \<open>Data\<close> key, is evaluated with no diagnostic at all.
\<close>

theorem no_Data_diagnostic_counterexample:
  "process_json_file
     (\<lparr>name = ''empty.json'', data = Loads (JDict [])\<rparr>, [(''gpu-cluster'', ''pkg-gpu'')],
      map_of []) = Inr ([], None)"
  by (simp add: process_json_file_def try_body_def bind_exn_def lower_def lower_char_def
      owned_by_def)

section \<open>The scan coordinator\<close>

lemma as_completed_map:
  "as_completed sched (map f xs) = map f (as_completed sched xs)"
proof (induction sched xs rule: as_completed.induct)
  case (3 k ks p ps)
  have lt: "k mod length (p # ps) < length (p # ps)" by simp
  have "as_completed ks (take (k mod length (p # ps)) (map f (p # ps)) @
          drop (Suc (k mod length (p # ps))) (map f (p # ps)))
      = map f (as_completed ks (take (k mod length (p # ps)) (p # ps) @
          drop (Suc (k mod length (p # ps))) (p # ps)))"
    using "3.IH" [OF refl] by (simp only: take_map drop_map map_append [symmetric])
  moreover have "map f (p # ps) ! (k mod length (p # ps)) = f ((p # ps) ! (k mod length (p # ps)))"
    using lt by (rule nth_map)
  ultimately show ?case
    by (simp add: Let_def)
qed simp_all

lemma mset_as_completed:
  "mset (as_completed sched xs) = mset xs"
proof (induction sched xs rule: as_completed.induct)
  case (3 k ks p ps)
  let ?i = "k mod length (p # ps)"
  have lt: "?i < length (p # ps)" by simp
  have "mset (as_completed (k # ks) (p # ps))
      = add_mset ((p # ps) ! ?i) (mset (take ?i (p # ps) @ drop (Suc ?i) (p # ps)))"
    using "3.IH" [OF refl] by (simp only: as_completed.simps Let_def mset.simps)
  also have "\<dots> = mset (take ?i (p # ps) @ (p # ps) ! ?i # drop (Suc ?i) (p # ps))"
    by simp
  also have "\<dots> = mset (p # ps)"
    using id_take_nth_drop [OF lt] by simp
  finally show ?case .
qed simp_all

lemma as_completed_any_order:
  "mset ys = mset xs \<Longrightarrow> \<exists>sched. as_completed sched xs = ys"
proof (induction ys arbitrary: xs)
  case Nil
  then show ?case by (intro exI [of _ "[]"]) simp
next
  case (Cons y ys)
  then have "y \<in> set xs"
    by (metis list.set_intros(1) mset_eq_setD)
  then obtain i where i: "i < length xs" and y: "xs ! i = y"
    by (auto simp: in_set_conv_nth)
  let ?rest = "take i xs @ drop (Suc i) xs"
  have "mset xs = add_mset y (mset ?rest)"
    using id_take_nth_drop [OF i] y by (metis mset.simps(2) mset_append union_mset_add_mset_right)
  with Cons.prems have "mset ys = mset ?rest" by simp
  then obtain ks where ks: "as_completed ks ?rest = ys"
    using Cons.IH by blast
  from i obtain p ps where xs: "xs = p # ps" by (cases xs) auto
  have "as_completed (i # ks) xs = y # ys"
    using i y ks unfolding xs by (simp add: Let_def)
  then show ?case by blast
qed

lemma diagnostics_append:
  "diagnostics (out @ out') = diagnostics out @ diagnostics out'"
  by (induction out rule: diagnostics.induct) simp_all

lemma collect_result_fields:
  "unauthorized_servers (collect_result n res st) = unauthorized_servers st @ violations_of (Inr res)"
  "processed_files (collect_result n res st) = Suc (processed_files st)"
  "found_servers (collect_result n res st) = found_servers st + length (violations_of (Inr res))"
  "diagnostics (stdout (collect_result n res st)) = diagnostics (stdout st) @ diagnostic_of (Inr res)"
  by (cases res; simp add: collect_result_def Let_def diagnostics_append diagnostic_of_def
      violations_of_def)+

lemma collect_all_returns:
  assumes "\<forall>x\<in>set futures. \<exists>res. x = Inr res"
  shows "\<exists>st'. collect_all n futures st = Inr st' \<and>
     unauthorized_servers st' = unauthorized_servers st @ concat (map violations_of futures) \<and>
     processed_files st' = processed_files st + length futures \<and>
     found_servers st' = found_servers st + length (concat (map violations_of futures)) \<and>
     diagnostics (stdout st') = diagnostics (stdout st) @ concat (map diagnostic_of futures)"
  using assms
proof (induction futures arbitrary: st)
  case Nil
  then show ?case by simp
next
  case (Cons x futures)
  then obtain res where x: "x = Inr res" by auto
  from Cons.prems have "\<forall>x\<in>set futures. \<exists>res. x = Inr res" by simp
  from Cons.IH [OF this, of "collect_result n res st"] show ?case
    unfolding x by (auto simp: collect_result_fields)
qed

lemma scan_returns:
  "\<exists>out. scan_servers_parallel sched json_files reqs up =
       Inr ((concat (map (\<lambda>file. violations_of (process_json_file (file, reqs, up)))
               (as_completed sched json_files)),
             length json_files,
             length (concat (map (\<lambda>file. violations_of (process_json_file (file, reqs, up)))
               (as_completed sched json_files)))), out) \<and>
     diagnostics out =
       concat (map (\<lambda>file. diagnostic_of (process_json_file (file, reqs, up)))
         (as_completed sched json_files))"
proof (cases "json_files = []")
  case True
  then show ?thesis by (simp add: scan_servers_parallel_def)
next
  case False
  let ?run = "\<lambda>file. process_json_file (file, reqs, up)"
  let ?futures = "as_completed sched (map ?run json_files)"
  have futures: "?futures = map ?run (as_completed sched json_files)"
    by (rule as_completed_map)
  have "\<forall>x\<in>set ?futures. \<exists>res. x = Inr res"
    unfolding futures by (auto simp: process_json_file_returns)
  from collect_all_returns [OF this, of "length json_files"
      "\<lparr>unauthorized_servers = [], processed_files = 0, found_servers = 0,
        stdout = [FoundFiles (length json_files)]\<rparr>"]
  obtain st' where st': "collect_all (length json_files) ?futures
        \<lparr>unauthorized_servers = [], processed_files = 0, found_servers = 0,
          stdout = [FoundFiles (length json_files)]\<rparr> = Inr st'"
    and v: "unauthorized_servers st' = concat (map violations_of ?futures)"
    and p: "processed_files st' = length ?futures"
    and f: "found_servers st' = length (concat (map violations_of ?futures))"
    and d: "diagnostics (stdout st') = concat (map diagnostic_of ?futures)"
    by auto
  have len: "length ?futures = length json_files"
    using mset_as_completed [of sched "map ?run json_files"] by (metis size_mset length_map)
  have "scan_servers_parallel sched json_files reqs up =
      Inr ((unauthorized_servers st', processed_files st', found_servers st'),
           stdout st' @ [Newline])"
    using False st' by (simp add: scan_servers_parallel_def Let_def bind_exn_def o_def)
  then show ?thesis
    using v p f d len by (simp add: futures o_def diagnostics_append)
qed

lemma mset_concat_map_cong:
  assumes "mset xs = mset ys"
  shows "mset (concat (map g xs)) = mset (concat (map g ys))"
proof -
  have "mset (concat (map g zs)) = sum_mset (image_mset (\<lambda>z. mset (g z)) (mset zs))" for zs
    by (induction zs) simp_all
  then show ?thesis using assms by simp
qed

lemma distinct_concat_keys:
  assumes "distinct (map nm zs)"
    and "\<And>z. distinct (map k (g z))"
    and "\<And>z v. v \<in> set (g z) \<Longrightarrow> fst (k v) = nm z"
  shows "distinct (map k (concat (map g zs)))"
  using assms(1)
proof (induction zs)
  case Nil
  then show ?case by simp
next
  case (Cons z zs)
  have "k v \<noteq> k w" if v: "v \<in> set (g z)" and w: "w \<in> set (concat (map g zs))" for v w
  proof -
    from w obtain z' where z': "z' \<in> set zs" and "w \<in> set (g z')" by auto
    then have "fst (k w) = nm z'" by (simp add: assms(3))
    moreover have "fst (k v) = nm z" using v by (rule assms(3))
    moreover have "nm z \<noteq> nm z'" using Cons.prems z' by auto
    ultimately show ?thesis by auto
  qed
  then have "k ` set (g z) \<inter> k ` set (concat (map g zs)) = {}" by blast
  moreover have "distinct (map k (concat (map g zs)))" using Cons by simp
  ultimately show ?case using assms(2) [of z] by simp
qed

lemma distinct_scan_keys:
  assumes "distinct (map name zs)" and "distinct (map fst reqs)"
  shows "distinct (map spec_sort_key
           (concat (map (\<lambda>f. violations_of (process_json_file (f, reqs, up))) zs)))"
proof (rule distinct_concat_keys [OF assms(1)])
  fix z
  obtain Q where Q: "map spec_sort_key (violations_of (process_json_file (z, reqs, up)))
       = map (\<lambda>rule. (name z, fst rule)) (filter Q reqs)"
    using process_keys by blast
  have "distinct (map fst (filter Q reqs))"
    using assms(2) by (simp add: distinct_map_filter)
  then have "distinct (map (\<lambda>rule. (name z, fst rule)) (filter Q reqs))"
    by (simp add: distinct_map inj_on_def)
  then show "distinct (map spec_sort_key (violations_of (process_json_file (z, reqs, up))))"
    by (simp only: Q)
  fix v assume "v \<in> set (violations_of (process_json_file (z, reqs, up)))"
  then have "spec_sort_key v
      \<in> set (map spec_sort_key (violations_of (process_json_file (z, reqs, up))))"
    by simp
  then show "fst (spec_sort_key v) = name z"
    unfolding Q by auto
qed

lemma filter_same_key:
  "distinct (map k zs) \<Longrightarrow> x \<in> set zs \<Longrightarrow> filter (\<lambda>y. k x = k y) zs = [x]"
proof (induction zs)
  case Nil
  then show ?case by simp
next
  case (Cons a zs)
  show ?case
  proof (cases "x = a")
    case True
    then show ?thesis using Cons.prems by (auto simp: filter_empty_conv)
  next
    case False
    then have "x \<in> set zs" using Cons.prems by simp
    moreover from this have "k x \<in> k ` set zs" by (rule imageI)
    then have "k x \<noteq> k a" using Cons.prems by auto
    ultimately show ?thesis using Cons by simp
  qed
qed

lemma sort_key_unique:
  assumes "mset xs = mset ys" and "distinct (map k xs)"
  shows "sort_key k xs = sort_key k ys"
proof (rule properties_for_sort_key)
  show "mset (sort_key k ys) = mset xs" using assms(1) by simp
  show "sorted (map k (sort_key k ys))" by simp
  have dx: "distinct (map k (sort_key k ys))"
    using assms mset_eq_imp_distinct_iff [of "map k (sort_key k ys)" "map k xs"] by simp
  fix x assume x: "x \<in> set (sort_key k ys)"
  then have "x \<in> set xs" using mset_eq_setD [OF assms(1)] by simp
  then show "filter (\<lambda>y. k x = k y) (sort_key k ys) = filter (\<lambda>y. k x = k y) xs"
    using filter_same_key [OF dx x] filter_same_key [OF assms(2)] by simp
qed

text \<open>
  C2, as the code has it: the violation list that the scan returns is in arrival order. It
  is the concatenation, in the order in which the workers finish, of the lists that the
  evaluator returns for each record, and each of these is in the iteration order of the
  entitlement table. No sort is applied.
\<close>

theorem scan_violations_arrival_order:
  "(\<exists>processed found out.
      scan_servers_parallel sched json_files reqs up =
        Inr ((concat (map (\<lambda>file. violations_of (process_json_file (file, reqs, up)))
                 (as_completed sched json_files)), processed, found), out)) \<and>
   (\<exists>Q. map (\<lambda>v. (file_name v, resource v)) (violations_of (process_json_file (f, reqs, up)))
        = map (\<lambda>rule. (name f, fst rule)) (filter Q reqs))"
  using scan_returns [of sched json_files reqs up] process_keys [of f reqs up]
  by (auto simp: spec_sort_key_def [abs_def])

text \<open>
  C2 as stated asks for a list sorted by \<open>(source_identifier, resource)\<close>. One record
  that uses the resources \<open>x\<close> and \<open>y\<close>, under a table that lists \<open>y\<close> before \<open>x\<close>,
  gives the violation for \<open>y\<close> before the one for \<open>x\<close>.
\<close>

theorem scan_not_sorted_counterexample:
  "scan_servers_parallel []
       [\<lparr>name = ''a.json'',
          data = Loads (JDict [(''Data'', JDict [(''resources'', JList [JStr ''x'', JStr ''y''])])])\<rparr>]
       [(''y'', ''p''), (''x'', ''p'')] (map_of [])
     = Inr (([\<lparr>server_code = JStr ''N/A'', owner_name = JStr ''N/A'', owner_profile = JStr ''N/A'',
                 resource = ''y'', required_package = ''p'', file_name = ''a.json''\<rparr>,
               \<lparr>server_code = JStr ''N/A'', owner_name = JStr ''N/A'', owner_profile = JStr ''N/A'',
                 resource = ''x'', required_package = ''p'', file_name = ''a.json''\<rparr>], 1, 2),
            [FoundFiles 1, Progress 1 1 2, Newline]) \<and>
   \<not> sorted (map spec_sort_key
       [\<lparr>server_code = JStr ''N/A'', owner_name = JStr ''N/A'', owner_profile = JStr ''N/A'',
          resource = ''y'', required_package = ''p'', file_name = ''a.json''\<rparr>,
        \<lparr>server_code = JStr ''N/A'', owner_name = JStr ''N/A'', owner_profile = JStr ''N/A'',
          resource = ''x'', required_package = ''p'', file_name = ''a.json''\<rparr>])"
  by (simp add: scan_servers_parallel_def collect_result_def process_json_file_def try_body_def
      bind_exn_def lower_def lower_char_def owned_by_def spec_sort_key_def Let_def)

text \<open>
  C5, as the code has it: the scan prints the diagnostic of each record, as its result
  arrives and so in the order in which the workers finish, and returns the triple
  (violations, processed count, found count). The diagnostics are not part of what it
  returns.
\<close>

theorem scan_prints_diagnostics:
  "\<exists>returned out.
      scan_servers_parallel sched json_files reqs up = Inr (returned, out) \<and>
      diagnostics out =
        concat (map (\<lambda>file. case process_json_file (file, reqs, up) of
                               Inr (result, Some msg) \<Rightarrow> [msg] | _ \<Rightarrow> [])
          (as_completed sched json_files))"
  using scan_returns [of sched json_files reqs up]
  by (auto simp: diagnostic_of_process)

text \<open>
  C5 as stated has the diagnostic list in the result. A scan of one unparsable record and
  a scan of one clean record return the same value, though the first has a diagnostic and
  the second has none.
\<close>

theorem scan_result_without_diagnostics_counterexample:
  "scan_servers_parallel []
       [\<lparr>name = ''bad.json'', data = ParseFails ''Expecting value''\<rparr>]
       [(''gpu-cluster'', ''pkg-gpu'')] (map_of [])
     = Inr (([], 1, 0),
            [FoundFiles 1, ErrorLine ''Error reading bad.json: Expecting value'',
             Progress 1 1 0, Newline]) \<and>
   scan_servers_parallel []
       [\<lparr>name = ''ok.json'', data = Loads (JDict [])\<rparr>]
       [(''gpu-cluster'', ''pkg-gpu'')] (map_of [])
     = Inr (([], 1, 0), [FoundFiles 1, Progress 1 1 0, Newline])"
  by (simp add: scan_servers_parallel_def collect_result_def process_json_file_def try_body_def
      bind_exn_def lower_def lower_char_def owned_by_def Let_def)

text \<open>
  C6: on an empty record set the scan returns no violations and the counts 0 and 0, and
  prints only that no file was found: no diagnostic, and no evaluation is dispatched. On
  an empty entitlement table the scan returns no violations, whatever the records and the
  order in which they finish.
\<close>

theorem scan_empty_inputs:
  "scan_servers_parallel sched [] reqs up = Inr (([], 0, 0), [NoFilesFound]) \<and>
   diagnostics [NoFilesFound] = [] \<and>
   (\<exists>processed found out.
      scan_servers_parallel sched json_files [] up = Inr (([], processed, found), out))"
proof -
  have "scan_servers_parallel sched [] reqs up = Inr (([], 0, 0), [NoFilesFound])"
    by (simp add: scan_servers_parallel_def)
  moreover have "\<exists>processed found out.
      scan_servers_parallel sched json_files [] up = Inr (([], processed, found), out)"
    using scan_returns [of sched json_files "[]" up]
    by (auto simp: process_json_file_no_requirements)
  ultimately show ?thesis by simp
qed

text \<open>
  C10: the processed count that the scan returns is the number of records listed, each
  counted once whatever its evaluation returned, and the found count is the length of the
  violation list returned with it.
\<close>

theorem scan_counters:
  "\<exists>violations out.
      scan_servers_parallel sched json_files reqs up =
        Inr ((violations, length json_files, length violations), out)"
  using scan_returns [of sched json_files reqs up] by blast

lemma scan_added_record:
  "\<exists>r1 r2.
     scan_servers_parallel s1 (xs @ ys) reqs up = Inr r1 \<and>
     scan_servers_parallel s2 (xs @ x # ys) reqs up = Inr r2 \<and>
     mset (fst (fst r2))
       = mset (fst (fst r1)) + mset (violations_of (process_json_file (x, reqs, up))) \<and>
     length (diagnostics (snd r2))
       = length (diagnostics (snd r1)) + length (diagnostic_of (process_json_file (x, reqs, up)))"
proof -
  let ?v = "\<lambda>file. violations_of (process_json_file (file, reqs, up))"
  let ?d = "\<lambda>file. diagnostic_of (process_json_file (file, reqs, up))"
  obtain out1 where r1: "scan_servers_parallel s1 (xs @ ys) reqs up =
      Inr ((concat (map ?v (as_completed s1 (xs @ ys))), length (xs @ ys),
            length (concat (map ?v (as_completed s1 (xs @ ys))))), out1)"
    and d1: "diagnostics out1 = concat (map ?d (as_completed s1 (xs @ ys)))"
    using scan_returns [of s1 "xs @ ys" reqs up] by blast
  obtain out2 where r2: "scan_servers_parallel s2 (xs @ x # ys) reqs up =
      Inr ((concat (map ?v (as_completed s2 (xs @ x # ys))), length (xs @ x # ys),
            length (concat (map ?v (as_completed s2 (xs @ x # ys))))), out2)"
    and d2: "diagnostics out2 = concat (map ?d (as_completed s2 (xs @ x # ys)))"
    using scan_returns [of s2 "xs @ x # ys" reqs up] by blast
  have perm: "mset (as_completed s2 (xs @ x # ys)) = mset (x # as_completed s1 (xs @ ys))"
    by (simp add: mset_as_completed)
  have "mset (concat (map ?v (as_completed s2 (xs @ x # ys))))
      = mset (concat (map ?v (x # as_completed s1 (xs @ ys))))"
    by (rule mset_concat_map_cong [OF perm])
  then have v: "mset (concat (map ?v (as_completed s2 (xs @ x # ys))))
      = mset (concat (map ?v (as_completed s1 (xs @ ys)))) + mset (?v x)"
    by simp
  have "mset (concat (map ?d (as_completed s2 (xs @ x # ys))))
      = mset (concat (map ?d (x # as_completed s1 (xs @ ys))))"
    by (rule mset_concat_map_cong [OF perm])
  then have "length (concat (map ?d (as_completed s2 (xs @ x # ys))))
      = length (concat (map ?d (x # as_completed s1 (xs @ ys))))"
    by (rule mset_eq_length)
  then have d: "length (diagnostics out2) = length (diagnostics out1) + length (?d x)"
    by (simp add: d1 d2)
  show ?thesis
    using v d by (simp add: r1 r2)
qed

lemma process_json_file_unreadable:
  "\<forall>j. data x \<noteq> Loads j \<Longrightarrow> \<exists>msg. process_json_file (x, reqs, up) = Inr ([], Some msg)"
  by (cases "data x") (simp_all add: process_json_file_def try_body_def)

lemma process_json_file_diagnosed:
  assumes "process_json_file (x, reqs, up) = Inr (result, Some msg)"
  shows "violations_of (process_json_file (x, reqs, up)) = []"
    and "length (diagnostic_of (process_json_file (x, reqs, up))) = 1"
  using process_error_nonempty [OF assms] assms
  by (simp_all add: violations_of_def diagnostic_of_def)

text \<open>
  C8, as the code has it: adding one record to a record set, at any place and under any
  order of completion, leaves the outcome of every other record as it was: the returned
  violations grow by exactly the violations of the added record, and the printed
  diagnostics by its diagnostic, if it has one. When the added record cannot be opened,
  decoded or parsed, or its evaluation returns a diagnostic for any other fault, that is
  exactly one diagnostic more and the same violations.
\<close>

theorem scan_isolation:
  "\<exists>r1 r2.
     scan_servers_parallel s1 (xs @ ys) reqs up = Inr r1 \<and>
     scan_servers_parallel s2 (xs @ x # ys) reqs up = Inr r2 \<and>
     mset (fst (fst r2))
       = mset (fst (fst r1)) + mset (violations_of (process_json_file (x, reqs, up))) \<and>
     length (diagnostics (snd r2))
       = length (diagnostics (snd r1)) + length (diagnostic_of (process_json_file (x, reqs, up))) \<and>
     ((\<forall>j. data x \<noteq> Loads j) \<or> process_json_file (x, reqs, up) = Inr (result, Some msg) \<longrightarrow>
        mset (fst (fst r2)) = mset (fst (fst r1)) \<and>
        length (diagnostics (snd r2)) = Suc (length (diagnostics (snd r1))))"
proof -
  obtain r1 r2 where r: "scan_servers_parallel s1 (xs @ ys) reqs up = Inr r1"
      "scan_servers_parallel s2 (xs @ x # ys) reqs up = Inr r2"
    and v: "mset (fst (fst r2))
       = mset (fst (fst r1)) + mset (violations_of (process_json_file (x, reqs, up)))"
    and d: "length (diagnostics (snd r2))
       = length (diagnostics (snd r1)) + length (diagnostic_of (process_json_file (x, reqs, up)))"
    using scan_added_record [of s1 xs ys reqs up s2 x] by blast
  have "mset (fst (fst r2)) = mset (fst (fst r1)) \<and>
        length (diagnostics (snd r2)) = Suc (length (diagnostics (snd r1)))"
    if "(\<forall>j. data x \<noteq> Loads j) \<or> process_json_file (x, reqs, up) = Inr (result, Some msg)"
  proof -
    from that obtain result' msg' where "process_json_file (x, reqs, up) = Inr (result', Some msg')"
      using process_json_file_unreadable [of x reqs up] by blast
    from process_json_file_diagnosed [OF this] v d show ?thesis by simp
  qed
  with r v d show ?thesis by blast
qed

theorem scan_isolation_witness:
  "\<exists>r1 r2.
     scan_servers_parallel []
       [\<lparr>name = ''srv3.json'',
          data = Loads (JDict [(''Data'', JDict [(''ownerName'', JStr ''carol''),
                   (''resources'', JList [JStr ''gpu-cluster''])])])\<rparr>]
       [(''gpu-cluster'', ''pkg-gpu'')] (map_of []) = Inr r1 \<and>
     scan_servers_parallel [1]
       [\<lparr>name = ''srv3.json'',
          data = Loads (JDict [(''Data'', JDict [(''ownerName'', JStr ''carol''),
                   (''resources'', JList [JStr ''gpu-cluster''])])])\<rparr>,
        \<lparr>name = ''bad.json'', data = ParseFails ''Expecting value''\<rparr>]
       [(''gpu-cluster'', ''pkg-gpu'')] (map_of []) = Inr r2 \<and>
     mset (fst (fst r2)) = mset (fst (fst r1)) \<and>
     length (diagnostics (snd r2)) = Suc (length (diagnostics (snd r1)))"
  using scan_isolation
    [where x = "\<lparr>name = ''bad.json'', data = ParseFails ''Expecting value''\<rparr>"
      and reqs = "[(''gpu-cluster'', ''pkg-gpu'')]" and up = "map_of []"
      and ?s2.0 = "[1]" and ?s1.0 = "[]"
      and xs = "[\<lparr>name = ''srv3.json'',
          data = Loads (JDict [(''Data'', JDict [(''ownerName'', JStr ''carol''),
                   (''resources'', JList [JStr ''gpu-cluster''])])])\<rparr>]"
      and ys = "[]"]
  by auto

text \<open>
  C8 as stated has one diagnostic more for every malformed record. A record without its
  \<open>Data\<close> field adds none, and a record whose \<open>resources\<close> is a string instead of a list
  adds a violation and no diagnostic.
\<close>

theorem scan_isolation_counterexample:
  "scan_servers_parallel []
       [\<lparr>name = ''srv3.json'',
          data = Loads (JDict [(''Data'', JDict [(''ownerName'', JStr ''carol''),
                   (''resources'', JList [JStr ''gpu-cluster''])])])\<rparr>]
       [(''gpu-cluster'', ''pkg-gpu'')] (map_of [])
     = Inr (([\<lparr>server_code = JStr ''N/A'', owner_name = JStr ''carol'',
                 owner_profile = JStr ''N/A'', resource = ''gpu-cluster'',
                 required_package = ''pkg-gpu'', file_name = ''srv3.json''\<rparr>], 1, 1),
            [FoundFiles 1, Progress 1 1 1, Newline]) \<and>
   scan_servers_parallel []
       [\<lparr>name = ''srv3.json'',
          data = Loads (JDict [(''Data'', JDict [(''ownerName'', JStr ''carol''),
                   (''resources'', JList [JStr ''gpu-cluster''])])])\<rparr>,
        \<lparr>name = ''srv4.json'', data = Loads (JDict [(''EndPoint'', JStr ''srv4'')])\<rparr>]
       [(''gpu-cluster'', ''pkg-gpu'')] (map_of [])
     = Inr (([\<lparr>server_code = JStr ''N/A'', owner_name = JStr ''carol'',
                 owner_profile = JStr ''N/A'', resource = ''gpu-cluster'',
                 required_package = ''pkg-gpu'', file_name = ''srv3.json''\<rparr>], 2, 1),
            [FoundFiles 2, Progress 1 2 1, Progress 2 2 1, Newline]) \<and>
   length (diagnostics [FoundFiles 2, Progress 1 2 1, Progress 2 2 1, Newline])
     \<noteq> Suc (length (diagnostics [FoundFiles 1, Progress 1 1 1, Newline])) \<and>
   scan_servers_parallel []
       [\<lparr>name = ''srv3.json'',
          data = Loads (JDict [(''Data'', JDict [(''ownerName'', JStr ''carol''),
                   (''resources'', JList [JStr ''gpu-cluster''])])])\<rparr>,
        \<lparr>name = ''srv7.json'',
          data = Loads (JDict [(''Data'', JDict [(''resources'', JStr ''gpu-cluster-2'')])])\<rparr>]
       [(''gpu-cluster'', ''pkg-gpu'')] (map_of [])
     = Inr (([\<lparr>server_code = JStr ''N/A'', owner_name = JStr ''carol'',
                 owner_profile = JStr ''N/A'', resource = ''gpu-cluster'',
                 required_package = ''pkg-gpu'', file_name = ''srv3.json''\<rparr>,
               \<lparr>server_code = JStr ''N/A'', owner_name = JStr ''N/A'',
                 owner_profile = JStr ''N/A'', resource = ''gpu-cluster'',
                 required_package = ''pkg-gpu'', file_name = ''srv7.json''\<rparr>], 2, 2),
            [FoundFiles 2, Progress 1 2 1, Progress 2 2 2, Newline])"
  by (simp add: scan_servers_parallel_def collect_result_def process_json_file_def try_body_def
      bind_exn_def lower_def lower_char_def owned_by_def Let_def)

lemma scan_idempotent_aux:
  assumes "mset files2 = mset files1"
    and "distinct (map name files1)"
    and "distinct (map fst reqs)"
  shows "\<exists>r1 r2.
     scan_servers_parallel s1 files1 reqs up = Inr r1 \<and>
     scan_servers_parallel s2 files2 reqs up = Inr r2 \<and>
     mset (fst (fst r2)) = mset (fst (fst r1)) \<and>
     sort_key spec_sort_key (fst (fst r2)) = sort_key spec_sort_key (fst (fst r1))"
proof -
  let ?v = "\<lambda>file. violations_of (process_json_file (file, reqs, up))"
  obtain out1 where r1: "scan_servers_parallel s1 files1 reqs up =
      Inr ((concat (map ?v (as_completed s1 files1)), length files1,
            length (concat (map ?v (as_completed s1 files1)))), out1)"
    using scan_returns [of s1 files1 reqs up] by blast
  obtain out2 where r2: "scan_servers_parallel s2 files2 reqs up =
      Inr ((concat (map ?v (as_completed s2 files2)), length files2,
            length (concat (map ?v (as_completed s2 files2)))), out2)"
    using scan_returns [of s2 files2 reqs up] by blast
  have perm: "mset (as_completed s2 files2) = mset (as_completed s1 files1)"
    using assms(1) by (simp add: mset_as_completed)
  have m: "mset (concat (map ?v (as_completed s2 files2)))
      = mset (concat (map ?v (as_completed s1 files1)))"
    by (rule mset_concat_map_cong [OF perm])
  have "mset (map name (as_completed s2 files2)) = mset (map name files1)"
    using assms(1) by (simp add: mset_as_completed)
  then have "distinct (map name (as_completed s2 files2))"
    using assms(2) mset_eq_imp_distinct_iff by blast
  then have "distinct (map spec_sort_key (concat (map ?v (as_completed s2 files2))))"
    using assms(3) by (rule distinct_scan_keys)
  with m have "sort_key spec_sort_key (concat (map ?v (as_completed s2 files2)))
      = sort_key spec_sort_key (concat (map ?v (as_completed s1 files1)))"
    by (rule sort_key_unique)
  with m show ?thesis by (simp add: r1 r2)
qed

text \<open>
  C9: two scans of the same record set (file names distinct, as in one folder) under the
  same entitlement table (resources distinct, as the keys of a dict) and the same customer
  index, in whatever order the folder is listed and the workers finish, return the same
  violations as a set and as a multiset, and the two returned lists are equal once each
  is sorted by \<open>(source_identifier, resource)\<close>.
\<close>

theorem scan_idempotent:
  assumes "mset files2 = mset files1"
    and "distinct (map name files1)"
    and "distinct (map fst reqs)"
  shows "\<exists>r1 r2.
     scan_servers_parallel s1 files1 reqs up = Inr r1 \<and>
     scan_servers_parallel s2 files2 reqs up = Inr r2 \<and>
     set (fst (fst r2)) = set (fst (fst r1)) \<and>
     mset (fst (fst r2)) = mset (fst (fst r1)) \<and>
     sort_key spec_sort_key (fst (fst r2)) = sort_key spec_sort_key (fst (fst r1))"
  using scan_idempotent_aux [OF assms, of s1 up s2] mset_eq_setD by blast

theorem scan_idempotent_witness:
  "scan_servers_parallel []
       [\<lparr>name = ''srv2.json'',
            data = Loads (JDict [(''Data'', JDict [(''ownerName'', JStr ''bob''),
                     (''resources'', JList [JStr ''gpu-cluster''])])])\<rparr>,
         \<lparr>name = ''srv3.json'',
            data = Loads (JDict [(''Data'', JDict [(''ownerName'', JStr ''carol''),
                     (''resources'', JList [JStr ''gpu-cluster''])])])\<rparr>]
       [(''gpu-cluster'', ''pkg-gpu'')] (map_of [])
     = Inr (([\<lparr>server_code = JStr ''N/A'', owner_name = JStr ''bob'',
                 owner_profile = JStr ''N/A'', resource = ''gpu-cluster'',
                 required_package = ''pkg-gpu'', file_name = ''srv2.json''\<rparr>,
               \<lparr>server_code = JStr ''N/A'', owner_name = JStr ''carol'',
                 owner_profile = JStr ''N/A'', resource = ''gpu-cluster'',
                 required_package = ''pkg-gpu'', file_name = ''srv3.json''\<rparr>], 2, 2),
            [FoundFiles 2, Progress 1 2 1, Progress 2 2 2, Newline]) \<and>
   scan_servers_parallel [1]
       [\<lparr>name = ''srv2.json'',
            data = Loads (JDict [(''Data'', JDict [(''ownerName'', JStr ''bob''),
                     (''resources'', JList [JStr ''gpu-cluster''])])])\<rparr>,
         \<lparr>name = ''srv3.json'',
            data = Loads (JDict [(''Data'', JDict [(''ownerName'', JStr ''carol''),
                     (''resources'', JList [JStr ''gpu-cluster''])])])\<rparr>]
       [(''gpu-cluster'', ''pkg-gpu'')] (map_of [])
     = Inr (([\<lparr>server_code = JStr ''N/A'', owner_name = JStr ''carol'',
                 owner_profile = JStr ''N/A'', resource = ''gpu-cluster'',
                 required_package = ''pkg-gpu'', file_name = ''srv3.json''\<rparr>,
               \<lparr>server_code = JStr ''N/A'', owner_name = JStr ''bob'',
                 owner_profile = JStr ''N/A'', resource = ''gpu-cluster'',
                 required_package = ''pkg-gpu'', file_name = ''srv2.json''\<rparr>], 2, 2),
            [FoundFiles 2, Progress 1 2 1, Progress 2 2 2, Newline]) \<and>
   (\<exists>r1 r2.
     scan_servers_parallel []
       [\<lparr>name = ''srv2.json'',
            data = Loads (JDict [(''Data'', JDict [(''ownerName'', JStr ''bob''),
                     (''resources'', JList [JStr ''gpu-cluster''])])])\<rparr>,
         \<lparr>name = ''srv3.json'',
            data = Loads (JDict [(''Data'', JDict [(''ownerName'', JStr ''carol''),
                     (''resources'', JList [JStr ''gpu-cluster''])])])\<rparr>]
       [(''gpu-cluster'', ''pkg-gpu'')] (map_of []) = Inr r1 \<and>
     scan_servers_parallel [1]
       [\<lparr>name = ''srv2.json'',
            data = Loads (JDict [(''Data'', JDict [(''ownerName'', JStr ''bob''),
                     (''resources'', JList [JStr ''gpu-cluster''])])])\<rparr>,
         \<lparr>name = ''srv3.json'',
            data = Loads (JDict [(''Data'', JDict [(''ownerName'', JStr ''carol''),
                     (''resources'', JList [JStr ''gpu-cluster''])])])\<rparr>]
       [(''gpu-cluster'', ''pkg-gpu'')] (map_of []) = Inr r2 \<and>
     set (fst (fst r2)) = set (fst (fst r1)) \<and>
     mset (fst (fst r2)) = mset (fst (fst r1)) \<and>
     sort_key spec_sort_key (fst (fst r2)) = sort_key spec_sort_key (fst (fst r1)))"
proof (intro conjI)
  let ?files = "[\<lparr>name = ''srv2.json'',
            data = Loads (JDict [(''Data'', JDict [(''ownerName'', JStr ''bob''),
                     (''resources'', JList [JStr ''gpu-cluster''])])])\<rparr>,
         \<lparr>name = ''srv3.json'',
            data = Loads (JDict [(''Data'', JDict [(''ownerName'', JStr ''carol''),
                     (''resources'', JList [JStr ''gpu-cluster''])])])\<rparr>]"
  have "mset ?files = mset ?files" "distinct (map name ?files)"
    "distinct (map fst [(''gpu-cluster'', ''pkg-gpu'')])"
    by simp_all
  from scan_idempotent [OF this, of "[]" "map_of []" "[1]"]
  show "\<exists>r1 r2.
     scan_servers_parallel [] ?files [(''gpu-cluster'', ''pkg-gpu'')] (map_of []) = Inr r1 \<and>
     scan_servers_parallel [1] ?files [(''gpu-cluster'', ''pkg-gpu'')] (map_of []) = Inr r2 \<and>
     set (fst (fst r2)) = set (fst (fst r1)) \<and>
     mset (fst (fst r2)) = mset (fst (fst r1)) \<and>
     sort_key spec_sort_key (fst (fst r2)) = sort_key spec_sort_key (fst (fst r1))" .
qed (simp_all add: scan_servers_parallel_def collect_result_def process_json_file_def try_body_def
      bind_exn_def lower_def lower_char_def owned_by_def Let_def)

section \<open>The customer index\<close>

lemma replace_delete: "replace old [] s = filter (\<lambda>c. c \<noteq> old) s"
  by (induction s) (simp_all add: replace_def)

lemma replace_single: "replace old [new] s = map (\<lambda>c. if c = old then new else c) s"
  by (induction s) (simp_all add: replace_def)

lemma dropWhile_none: "(\<And>x. x \<in> set xs \<Longrightarrow> \<not> P x) \<Longrightarrow> dropWhile P xs = xs"
  by (cases xs) auto

lemma strip_id:
  assumes "\<And>c. c \<in> set p \<Longrightarrow> \<not> isspace c"
  shows "strip p = p"
proof -
  have "dropWhile isspace p = p"
    using assms by (rule dropWhile_none)
  moreover have "dropWhile isspace (rev p) = rev p"
    using assms by (intro dropWhile_none) simp
  ultimately show ?thesis by (simp add: strip_def)
qed

lemma strip_decomp:
  obtains a b where "f = a @ strip f @ b"
    and "\<forall>c\<in>set a. isspace c" and "\<forall>c\<in>set b. isspace c"
proof
  let ?t = "dropWhile isspace f"
  have "?t = rev (takeWhile isspace (rev ?t) @ dropWhile isspace (rev ?t))"
    by (simp only: takeWhile_dropWhile_id rev_rev_ident)
  also have "\<dots> = strip f @ rev (takeWhile isspace (rev ?t))"
    by (simp only: rev_append strip_def)
  finally have t: "?t = strip f @ rev (takeWhile isspace (rev ?t))" .
  have "f = takeWhile isspace f @ ?t"
    by (simp only: takeWhile_dropWhile_id)
  also have "\<dots> = takeWhile isspace f @ strip f @ rev (takeWhile isspace (rev ?t))"
    using t by (rule arg_cong)
  finally show "f = takeWhile isspace f @ strip f @ rev (takeWhile isspace (rev ?t))" .
  show "\<forall>c\<in>set (takeWhile isspace f). isspace c"
    by (auto dest: set_takeWhileD)
  show "\<forall>c\<in>set (rev (takeWhile isspace (rev ?t))). isspace c"
    by (auto dest: set_takeWhileD)
qed

lemma split_at_each_nonempty: "split_at_each P s \<noteq> []"
  by (cases s) simp_all

lemma tokens_sep_prefix:
  "(\<forall>c\<in>set a. P c) \<Longrightarrow>
   filter (\<lambda>w. w \<noteq> []) (split_at_each P (a @ s)) = filter (\<lambda>w. w \<noteq> []) (split_at_each P s)"
  by (induction a) simp_all

lemma filter_hd_tl:
  "xs \<noteq> [] \<Longrightarrow> filter Q xs = filter Q [hd xs] @ filter Q (tl xs)"
  by (cases xs) simp_all

lemma split_sep_suffix:
  assumes "\<forall>c\<in>set b. P c"
  shows "hd (split_at_each P (s @ b)) = hd (split_at_each P s) \<and>
         filter (\<lambda>w. w \<noteq> []) (tl (split_at_each P (s @ b)))
           = filter (\<lambda>w. w \<noteq> []) (tl (split_at_each P s))"
proof (induction s)
  case Nil
  have all: "filter (\<lambda>w. w \<noteq> []) (split_at_each P b) = []"
    using tokens_sep_prefix [OF assms, of "[]"] by simp
  have h: "hd (split_at_each P b) = []"
    using assms by (cases b) simp_all
  have "filter (\<lambda>w. w \<noteq> []) (tl (split_at_each P b)) = []"
    using all h filter_hd_tl [OF split_at_each_nonempty, of "\<lambda>w. w \<noteq> []" P b] by simp
  with h show ?case by simp
next
  case (Cons c s)
  have "filter (\<lambda>w. w \<noteq> []) (split_at_each P (s @ b))
      = filter (\<lambda>w. w \<noteq> []) (split_at_each P s)"
    using Cons.IH
      filter_hd_tl [OF split_at_each_nonempty, of "\<lambda>w. w \<noteq> []" P "s @ b"]
      filter_hd_tl [OF split_at_each_nonempty, of "\<lambda>w. w \<noteq> []" P s]
    by simp
  with Cons.IH show ?case by simp
qed

lemma tokens_sep_suffix:
  assumes "\<forall>c\<in>set b. P c"
  shows "filter (\<lambda>w. w \<noteq> []) (split_at_each P (s @ b))
           = filter (\<lambda>w. w \<noteq> []) (split_at_each P s)"
  using split_sep_suffix [OF assms, of s]
    filter_hd_tl [OF split_at_each_nonempty, of "\<lambda>w. w \<noteq> []" P "s @ b"]
    filter_hd_tl [OF split_at_each_nonempty, of "\<lambda>w. w \<noteq> []" P s]
  by simp

lemma tokens_dropWhile:
  "filter (\<lambda>w. w \<noteq> []) (split_at_each P (dropWhile P s))
     = filter (\<lambda>w. w \<noteq> []) (split_at_each P s)"
proof -
  have "\<forall>c\<in>set (takeWhile P s). P c" by (auto dest: set_takeWhileD)
  from tokens_sep_prefix [OF this, of "dropWhile P s"] show ?thesis by simp
qed

lemma re_split_from_tokens:
  "filter (\<lambda>w. w \<noteq> []) (re_split_from cur s)
     = filter (\<lambda>w. w \<noteq> [])
         ((rev cur @ hd (split_at_each is_sep s)) # tl (split_at_each is_sep s))"
proof (induction cur s rule: re_split_from.induct)
  case (1 cur)
  then show ?case by simp
next
  case (2 cur c cs)
  show ?case
  proof (cases "is_sep c")
    case True
    have "filter (\<lambda>w. w \<noteq> []) (re_split_from [] (dropWhile is_sep cs))
        = filter (\<lambda>w. w \<noteq> []) (split_at_each is_sep (dropWhile is_sep cs))"
      using "2.IH"(1) [OF True] split_at_each_nonempty [of is_sep "dropWhile is_sep cs"]
      by simp
    then show ?thesis using True by (simp add: tokens_dropWhile)
  next
    case False
    then show ?thesis using "2.IH"(2) by simp
  qed
qed

lemma re_split_tokens:
  "filter (\<lambda>w. w \<noteq> []) (re_split s) = filter (\<lambda>w. w \<noteq> []) (split_at_each is_sep s)"
  using re_split_from_tokens [of "[]" s] split_at_each_nonempty [of is_sep s]
  by (simp add: re_split_def)

lemma re_split_from_no_sep:
  "p \<in> set (re_split_from cur s) \<Longrightarrow> \<forall>c\<in>set cur. \<not> is_sep c \<Longrightarrow> \<forall>c\<in>set p. \<not> is_sep c"
  by (induction cur s rule: re_split_from.induct) (auto split: if_splits)

lemma re_split_strip:
  assumes "p \<in> set (re_split s)"
  shows "strip p = p"
proof (rule strip_id)
  fix c assume "c \<in> set p"
  with re_split_from_no_sep [of p "[]" s] assms have "\<not> is_sep c"
    by (simp add: re_split_def)
  then show "\<not> isspace c" by (simp add: is_sep_def)
qed

lemma strip_pieces:
  "strip ` {p \<in> set (re_split s). strip p \<noteq> []} = set (filter (\<lambda>w. w \<noteq> []) (re_split s))"
proof -
  have "{p \<in> set (re_split s). strip p \<noteq> []} = {p \<in> set (re_split s). p \<noteq> []}"
    by (auto simp: re_split_strip)
  moreover have "strip ` {p \<in> set (re_split s). p \<noteq> []} = {p \<in> set (re_split s). p \<noteq> []}"
    by (rule image_cong [where g = id, simplified]) (auto simp: re_split_strip)
  ultimately show ?thesis by simp
qed

lemma split_packages_list:
  "split_packages f =
     set (filter (\<lambda>w. w \<noteq> [])
       (re_split (replace (CHR '';'') '','' (replace (CHR 0x22) []
          (replace (CHR '']'') [] (replace (CHR ''['') [] f))))))"
  by (simp only: split_packages_def Let_def strip_pieces)

lemma isspace_kept:
  "isspace c \<Longrightarrow> c \<noteq> CHR ''['' \<and> c \<noteq> CHR '']'' \<and> c \<noteq> CHR 0x22 \<and> c \<noteq> CHR '';''"
  by (auto simp: isspace_def)

lemma clean_spaces: "\<forall>c\<in>set a. isspace c \<Longrightarrow> clean a = a \<and> (\<forall>c\<in>set a. is_sep c)"
  by (induction a) (auto simp: clean_def is_sep_def dest: isspace_kept)

lemma clean_append: "clean (a @ b) = clean a @ clean b"
  by (simp add: clean_def)

lemma replace_clean:
  "replace (CHR '';'') '','' (replace (CHR 0x22) [] (replace (CHR '']'') [] (replace (CHR ''['') [] f)))
     = clean f"
  by (simp add: replace_delete replace_single clean_def conj_commute conj_left_commute)

lemma split_packages_strip: "split_packages (strip f) = spec_packages f"
proof -
  obtain a b where f: "f = a @ strip f @ b"
    and a: "\<forall>c\<in>set a. isspace c" and b: "\<forall>c\<in>set b. isspace c"
    by (rule strip_decomp)
  have "clean f = clean (a @ strip f @ b)"
    using f by (rule arg_cong)
  also have "\<dots> = a @ clean (strip f) @ b"
    using clean_spaces [OF a] clean_spaces [OF b] by (simp only: clean_append)
  finally have "filter (\<lambda>w. w \<noteq> []) (split_at_each is_sep (clean f))
      = filter (\<lambda>w. w \<noteq> []) (split_at_each is_sep (a @ clean (strip f) @ b))"
    by (rule arg_cong)
  also have "\<dots> = filter (\<lambda>w. w \<noteq> []) (split_at_each is_sep (clean (strip f) @ b))"
    using clean_spaces [OF a] by (intro tokens_sep_prefix) simp
  also have "\<dots> = filter (\<lambda>w. w \<noteq> []) (split_at_each is_sep (clean (strip f)))"
    using clean_spaces [OF b] by (intro tokens_sep_suffix) simp
  finally have eq: "filter (\<lambda>w. w \<noteq> []) (split_at_each is_sep (clean f))
      = filter (\<lambda>w. w \<noteq> []) (split_at_each is_sep (clean (strip f)))" .
  have "split_packages (strip f)
      = set (filter (\<lambda>w. w \<noteq> []) (split_at_each is_sep (clean (strip f))))"
    by (simp only: split_packages_list replace_clean re_split_tokens)
  also have "\<dots> = set (filter (\<lambda>w. w \<noteq> []) (split_at_each is_sep (clean f)))"
    by (simp only: eq)
  also have "\<dots> = spec_packages f"
    by (simp only: spec_packages_def clean_def Let_def)
  finally show ?thesis .
qed

lemma load_rows_step:
  assumes "well_formed_row row"
  shows "load_rows (row # rest) m =
     load_rows rest
       (case row_key row of None \<Rightarrow> m
        | Some k \<Rightarrow> m(k \<mapsto> owned_by m k \<union> row_packages row))"
proof -
  from assms obtain u p where u: "row_get row ''Username'' [] = Some u"
    and p: "row_get row ''Packages'' [] = Some p"
    by (auto simp: well_formed_row_def)
  show ?thesis
  proof (cases "strip u = []")
    case True
    then show ?thesis
      by (simp add: u p bind_exn_def row_key_def)
  next
    case False
    have "m(lower (strip u) \<mapsto> {}, lower (strip u) \<mapsto> split_packages (strip p))
        = m(lower (strip u) \<mapsto> owned_by m (lower (strip u)) \<union> split_packages (strip p))"
      if "lower (strip u) \<notin> dom m"
      using that by (auto simp: owned_by_def domIff)
    moreover have "the (m (lower (strip u))) = owned_by m (lower (strip u))"
      if "lower (strip u) \<in> dom m"
      using that by (auto simp: owned_by_def)
    ultimately show ?thesis
      using False
      by (simp add: u p bind_exn_def row_key_def row_packages_def Let_def
          split_packages_strip)
  qed
qed

lemma load_rows_union:
  assumes "list_all well_formed_row rows"
  shows "load_rows rows m =
     Inr (\<lambda>k. case spec_customer_index rows k of
                None \<Rightarrow> m k
              | Some ps \<Rightarrow> Some (owned_by m k \<union> ps))"
  using assms
proof (induction rows arbitrary: m)
  case Nil
  then show ?case by (simp add: spec_customer_index_def)
next
  case (Cons row rows)
  then have wf: "well_formed_row row" and rest: "list_all well_formed_row rows"
    by simp_all
  let ?m' = "case row_key row of None \<Rightarrow> m
        | Some k \<Rightarrow> m(k \<mapsto> owned_by m k \<union> row_packages row)"
  have "(case spec_customer_index rows k of None \<Rightarrow> ?m' k
          | Some ps \<Rightarrow> Some (owned_by ?m' k \<union> ps))
      = (case spec_customer_index (row # rows) k of None \<Rightarrow> m k
          | Some ps \<Rightarrow> Some (owned_by m k \<union> ps))" for k
    by (cases "row_key row")
       (auto simp: spec_customer_index_def Let_def owned_by_def filter_empty_conv split: option.splits)
  then show ?case
    by (simp only: load_rows_step [OF wf] Cons.IH [OF rest])
qed

lemma load_customer_packages_union_aux:
  assumes "list_all well_formed_row rows"
  shows "load_customer_packages (CsvRows rows # others) = Inr (spec_customer_index rows)"
proof -
  have "(\<lambda>k. case spec_customer_index rows k of None \<Rightarrow> Map.empty k
              | Some ps \<Rightarrow> Some (owned_by Map.empty k \<union> ps)) = spec_customer_index rows"
    by (auto simp: fun_eq_iff owned_by_def split: option.splits)
  then show ?thesis
    by (simp add: load_customer_packages_def load_rows_union [OF assms])
qed

text \<open>
  C7: from a customer file whose rows all hold a \<open>Username\<close> and a \<open>Packages\<close>
  field, \<open>load_customer_packages\<close> returns the index that maps each lower-cased (and
  stripped) username to the union of the package sets of all the rows with that username,
  one entry for each; the package set of a row is its field with the characters
  \<open>[\<close>, \<open>]\<close> and \<open>"\<close> removed and \<open>;\<close> read as \<open>,\<close>, split at commas and whitespace,
  without the empty fragments.
\<close>

theorem load_customer_packages_union:
  assumes "list_all well_formed_row rows"
  shows "load_customer_packages (CsvRows rows # others) = Inr (spec_customer_index rows)"
  using assms by (rule load_customer_packages_union_aux)

lemma load_customer_packages_example:
  "load_customer_packages
        [CsvRows [[(''Username'', Some ([CHR 0xC9] @ ''mile'')),
                   (''Packages'', Some ''[pkg-a; pkg-b]'')],
                  [(''Username'', Some ('' '' @ [CHR 0xE9] @ ''mile '')),
                   (''Packages'', Some (''pkg-c'' @ [CHR 0xA0] @ ''pkg-d'' @ [CHR 0x85] @ ''pkg-a''))]]]
        = Inr (Map.empty([CHR 0xE9] @ ''mile'' \<mapsto> {''pkg-a'', ''pkg-b''} \<union> {''pkg-c'', ''pkg-d'', ''pkg-a''}))"
  by (simp add: load_customer_packages_def bind_exn_def row_get_def strip_def isspace_def
      lower_def lower_char_def split_packages_list replace_def re_split_def is_sep_def Let_def)

theorem load_customer_packages_union_witness:
  "list_all well_formed_row
     [[(''Username'', Some ([CHR 0xC9] @ ''mile'')), (''Packages'', Some ''[pkg-a; pkg-b]'')],
      [(''Username'', Some ('' '' @ [CHR 0xE9] @ ''mile '')),
       (''Packages'', Some (''pkg-c'' @ [CHR 0xA0] @ ''pkg-d'' @ [CHR 0x85] @ ''pkg-a''))]] \<and>
   (\<exists>index. load_customer_packages
        [CsvRows [[(''Username'', Some ([CHR 0xC9] @ ''mile'')),
                   (''Packages'', Some ''[pkg-a; pkg-b]'')],
                  [(''Username'', Some ('' '' @ [CHR 0xE9] @ ''mile '')),
                   (''Packages'', Some (''pkg-c'' @ [CHR 0xA0] @ ''pkg-d'' @ [CHR 0x85] @ ''pkg-a''))]]]
        = Inr index \<and>
      index = spec_customer_index
        [[(''Username'', Some ([CHR 0xC9] @ ''mile'')), (''Packages'', Some ''[pkg-a; pkg-b]'')],
         [(''Username'', Some ('' '' @ [CHR 0xE9] @ ''mile '')),
          (''Packages'', Some (''pkg-c'' @ [CHR 0xA0] @ ''pkg-d'' @ [CHR 0x85] @ ''pkg-a''))]] \<and>
      index ([CHR 0xE9] @ ''mile'') = Some {''pkg-a'', ''pkg-b'', ''pkg-c'', ''pkg-d''} \<and>
      index ([CHR 0xC9] @ ''mile'') = None)"
proof -
  let ?rows = "[[(''Username'', Some ([CHR 0xC9] @ ''mile'')), (''Packages'', Some ''[pkg-a; pkg-b]'')],
      [(''Username'', Some ('' '' @ [CHR 0xE9] @ ''mile '')),
       (''Packages'', Some (''pkg-c'' @ [CHR 0xA0] @ ''pkg-d'' @ [CHR 0x85] @ ''pkg-a''))]]"
  let ?index = "Map.empty([CHR 0xE9] @ ''mile'' \<mapsto>
      {''pkg-a'', ''pkg-b''} \<union> {''pkg-c'', ''pkg-d'', ''pkg-a''})"
  have wf: "list_all well_formed_row ?rows"
    by (simp add: well_formed_row_def row_get_def)
  have spec: "load_customer_packages [CsvRows ?rows] = Inr (spec_customer_index ?rows)"
    by (rule load_customer_packages_union [OF wf])
  have code: "load_customer_packages [CsvRows ?rows] = Inr ?index"
    by (rule load_customer_packages_example)
  from spec code have eq: "spec_customer_index ?rows = ?index"
    by (simp only: sum.inject)
  have "?index ([CHR 0xE9] @ ''mile'') = Some {''pkg-a'', ''pkg-b'', ''pkg-c'', ''pkg-d''}"
    by auto
  moreover have "?index ([CHR 0xC9] @ ''mile'') = None"
    by simp
  ultimately show ?thesis
    using wf spec eq by (intro conjI exI [of _ "spec_customer_index ?rows"]) simp_all
qed

end
